theory Spec2Isabelle
  imports Complex_Main
begin

section \<open>Data model\<close>

text \<open>
  The conversation types of \<^verbatim>\<open>core/types/message.types\<close> as the executor and the
  role mapper use them. Strings are lists of characters; the numbers of the source are
  \<^typ>\<open>nat\<close> or \<^typ>\<open>int\<close> where they are lengths and counts that the code computes, and
  \<^typ>\<open>real\<close> where they are scores, rates or clock readings.
\<close>

datatype MessageRole = USER | ASSISTANT | HUMAN_AGENT | DEVELOPER | SYSTEM | TOOL | FUNCTION

record ToolUsage =
  name :: string
  args :: string

record ToolResponse =
  content :: string

record MessageBlock =
  role :: MessageRole
  content :: string
  toolUsages :: "ToolUsage list"
  toolResponses :: "ToolResponse list"

text \<open>The field \<^verbatim>\<open>id\<close> of a test case is written \<open>id_tc\<close>.\<close>

record TestCase =
  id_tc :: string
  name :: string
  messageBlocks :: "MessageBlock list"

record AgentMessage =
  role :: MessageRole
  content :: string

record AgentInput =
  messages :: "AgentMessage list"

record AgentOutput =
  response :: string

text \<open>
  The report of \<^verbatim>\<open>evaluateFromDirectory\<close>, with the fields the executor fills in. Counts
  are integers; the field \<^verbatim>\<open>id\<close> of a result's test case is written \<open>id_rc\<close>; a
  \<^verbatim>\<open>Date\<close> is a number of milliseconds.
\<close>

record ReportCase =
  id_rc :: string
  input :: string
  expected :: string

record EvaluationResult =
  testCase :: ReportCase
  score :: real
  passed :: bool
  error :: "string option"
  timestamp :: real
  response :: string

record EvaluationReport =
  totalTests :: int
  passedTests :: int
  failedTests :: int
  passRate :: real
  results :: "EvaluationResult list"
  timestamp :: real
  duration :: real

record TestCaseEvaluation =
  testCaseId :: string
  success :: bool
  error :: "string option"
  score :: real
  executionTime :: real
  response :: string
  testCase :: TestCase

text \<open>
  A thrown value: an instance of \<^verbatim>\<open>Error\<close> with its message, or anything else. The
  handlers of the executor read \<^verbatim>\<open>error instanceof Error ? error.message : 'Unknown error'\<close>.
\<close>

datatype exn = Error string | NonError

fun errorMessage :: "exn \<Rightarrow> string" where
  "errorMessage (Error m) = m"
| "errorMessage NonError = ''Unknown error''"

subsection \<open>String.prototype.trim\<close>

text \<open>
  \<^verbatim>\<open>trim\<close> and the class \<^verbatim>\<open>\s\<close> of regular expressions strip white space and line
  terminators. A character of a string is here a code unit below 256: among those, the
  white space is U+0009 to U+000D, U+0020 and U+00A0. The white space above 255 (U+FEFF,
  U+2028, U+2029 and the space separators of Unicode) is outside the strings of this model.
\<close>

definition isWhiteSpace :: "char \<Rightarrow> bool" where
  "isWhiteSpace c =
     (c \<in> set [CHR 0x09, CHR 0x0A, CHR 0x0B, CHR 0x0C, CHR 0x0D, CHR 0x20, CHR 0xA0])"

definition trimStart :: "string \<Rightarrow> string" where
  "trimStart s = dropWhile isWhiteSpace s"

definition trimEnd :: "string \<Rightarrow> string" where
  "trimEnd s = rev (dropWhile isWhiteSpace (rev s))"

definition trim :: "string \<Rightarrow> string" where
  "trim s = trimEnd (trimStart s)"

section \<open>Asynchronous functions\<close>

text \<open>
  An \<^verbatim>\<open>async\<close> function of the executor is a tree of its effects: it reads the clock
  (\<^verbatim>\<open>performance.now()\<close>), awaits the agent (\<^verbatim>\<open>agent.sendInput\<close>), awaits the
  scoring service (\<^verbatim>\<open>scoringService.scoreStrings\<close>), or is settled. Each external call
  settles with a thrown value (\<open>Inl\<close>) or a result (\<open>Inr\<close>); the continuation is what the
  function does next. A settled task of type \<open>(exn + 'a) task\<close> is a promise that is rejected
  (\<open>Inl\<close>) or fulfilled (\<open>Inr\<close>).
\<close>

datatype 'a task =
    Done 'a
  | Now "real \<Rightarrow> 'a task"
  | AwaitAgent AgentInput "exn + AgentOutput \<Rightarrow> 'a task"
  | AwaitScore string string "exn + real \<Rightarrow> 'a task"

text \<open>\<^verbatim>\<open>try { body } catch (error) { handler }\<close>: a value thrown by the body runs the handler.\<close>

primrec try_catch :: "(exn + 'a) task \<Rightarrow> (exn \<Rightarrow> (exn + 'a) task) \<Rightarrow> (exn + 'a) task" where
  "try_catch (Done r) handler = (case r of Inl e \<Rightarrow> handler e | Inr v \<Rightarrow> Done (Inr v))"
| "try_catch (Now k) handler = Now (\<lambda>t. try_catch (k t) handler)"
| "try_catch (AwaitAgent inp k) handler = AwaitAgent inp (\<lambda>r. try_catch (k r) handler)"
| "try_catch (AwaitScore a b k) handler = AwaitScore a b (\<lambda>r. try_catch (k r) handler)"

text \<open>\<^verbatim>\<open>await\<close> of an external call inside a function body: a rejection is thrown.\<close>

definition await_agent :: "AgentInput \<Rightarrow> (AgentOutput \<Rightarrow> (exn + 'a) task) \<Rightarrow> (exn + 'a) task" where
  "await_agent inp k = AwaitAgent inp (\<lambda>r. case r of Inl e \<Rightarrow> Done (Inl e) | Inr v \<Rightarrow> k v)"

definition await_score :: "string \<Rightarrow> string \<Rightarrow> (real \<Rightarrow> (exn + 'a) task) \<Rightarrow> (exn + 'a) task" where
  "await_score a b k = AwaitScore a b (\<lambda>r. case r of Inl e \<Rightarrow> Done (Inl e) | Inr v \<Rightarrow> k v)"

text \<open>
  Running a task alone, one call after the other, in a world \<open>'w\<close> that the external calls
  read and change: \<open>clock\<close> reads the time of a world, \<open>agent\<close> and \<open>scoring\<close> are the two
  collaborators. Both calls return here (with a result or a thrown value); a call that never
  returns is outside this model.
\<close>

primrec run ::
  "('w \<Rightarrow> real) \<Rightarrow> (AgentInput \<Rightarrow> 'w \<Rightarrow> (exn + AgentOutput) \<times> 'w) \<Rightarrow>
   (string \<Rightarrow> string \<Rightarrow> 'w \<Rightarrow> (exn + real) \<times> 'w) \<Rightarrow> 'a task \<Rightarrow> 'w \<Rightarrow> 'a \<times> 'w" where
  "run clock agent scoring (Done x) w = (x, w)"
| "run clock agent scoring (Now k) w = run clock agent scoring (k (clock w)) w"
| "run clock agent scoring (AwaitAgent inp k) w =
     (case agent inp w of (r, w') \<Rightarrow> run clock agent scoring (k r) w')"
| "run clock agent scoring (AwaitScore a b k) w =
     (case scoring a b w of (r, w') \<Rightarrow> run clock agent scoring (k r) w')"

section \<open>EvaluationExecutor\<close>

text \<open>
  A \<^verbatim>\<open>number\<close> of the configuration that nothing checks before it is used: a finite
  number (a real here; the rounding of doubles is left out, the sums of the first loop of
  \<^verbatim>\<open>executeTestCasesInParallel\<close> being exact for the counts and fractions at hand), an
  infinity or \<^verbatim>\<open>NaN\<close>.
\<close>

datatype number = Number real | NaN | PlusInfinity | MinusInfinity

record EvaluationConfig =
  threshold :: "real option"
  maxConcurrency :: "number option"

record EvaluationExecutor =
  threshold :: real
  maxConcurrency :: number

text \<open>The constructor: \<^verbatim>\<open>config.threshold ?? 0.7\<close> and \<^verbatim>\<open>config.maxConcurrency ?? 5\<close>.\<close>

definition constructor :: "EvaluationConfig \<Rightarrow> EvaluationExecutor" where
  "constructor config =
     \<lparr> EvaluationExecutor.threshold =
         (case EvaluationConfig.threshold config of None \<Rightarrow> 7 / 10 | Some t \<Rightarrow> t),
       EvaluationExecutor.maxConcurrency =
         (case EvaluationConfig.maxConcurrency config of None \<Rightarrow> Number 5 | Some k \<Rightarrow> k) \<rparr>"

definition tooFewBlocks :: string where
  "tooFewBlocks = ''Test case must have at least 2 message blocks: input and expected output''"

text \<open>The evaluation the \<^verbatim>\<open>catch\<close> branches build.\<close>

definition failedEvaluation :: "TestCase \<Rightarrow> exn \<Rightarrow> real \<Rightarrow> TestCaseEvaluation" where
  "failedEvaluation tc err time =
     \<lparr> testCaseId = id_tc tc, success = False, error = Some (errorMessage err), score = 0,
       executionTime = time, response = '''', testCase = tc \<rparr>"

text \<open>The constants \<^verbatim>\<open>input\<close> and \<^verbatim>\<open>expectedResponse\<close> of \<^verbatim>\<open>executeTestCase\<close>.\<close>

definition agentInput :: "TestCase \<Rightarrow> AgentInput" where
  "agentInput tc =
     \<lparr> messages =
         map (\<lambda>block. \<lparr> AgentMessage.role = MessageBlock.role block,
                         AgentMessage.content = MessageBlock.content block \<rparr>)
             (butlast (messageBlocks tc)) \<rparr>"

definition expectedResponse :: "TestCase \<Rightarrow> MessageBlock" where
  "expectedResponse tc = messageBlocks tc ! (length (messageBlocks tc) - 1)"

definition executeTestCase :: "EvaluationExecutor \<Rightarrow> TestCase \<Rightarrow> (exn + TestCaseEvaluation) task" where
  "executeTestCase this tc =
     Now (\<lambda>startTime.
       try_catch
         (if length (messageBlocks tc) < 2 then Done (Inl (Error tooFewBlocks))
          else
            await_agent (agentInput tc) (\<lambda>response.
              Now (\<lambda>t.
                let executionTime = t - startTime
                in await_score (trim (AgentOutput.response response))
                     (trim (MessageBlock.content (expectedResponse tc))) (\<lambda>score.
                     let isMatch = (score \<ge> EvaluationExecutor.threshold this)
                     in Done (Inr \<lparr> testCaseId = id_tc tc, success = isMatch,
                                error = (if isMatch then None else Some ''Response mismatch''),
                                score = score, executionTime = executionTime,
                                response = AgentOutput.response response,
                                testCase = tc \<rparr>)))))
         (\<lambda>error. Now (\<lambda>t.
            let executionTime = t - startTime
            in Done (Inr (failedEvaluation tc error executionTime)))))"

subsection \<open>Numbers\<close>

text \<open>The sum \<^verbatim>\<open>x + y\<close> of two numbers.\<close>

fun numberAdd :: "number \<Rightarrow> number \<Rightarrow> number" where
  "numberAdd (Number a) (Number b) = Number (a + b)"
| "numberAdd NaN y = NaN"
| "numberAdd x NaN = NaN"
| "numberAdd PlusInfinity MinusInfinity = NaN"
| "numberAdd MinusInfinity PlusInfinity = NaN"
| "numberAdd PlusInfinity y = PlusInfinity"
| "numberAdd x PlusInfinity = PlusInfinity"
| "numberAdd MinusInfinity y = MinusInfinity"
| "numberAdd x MinusInfinity = MinusInfinity"

text \<open>The test \<^verbatim>\<open>i < testCases.length\<close>: false for \<^verbatim>\<open>NaN\<close>.\<close>

fun belowLength :: "number \<Rightarrow> nat \<Rightarrow> bool" where
  "belowLength (Number a) n = (a < real n)"
| "belowLength MinusInfinity n = True"
| "belowLength PlusInfinity n = False"
| "belowLength NaN n = False"

text \<open>
  \<^verbatim>\<open>Array.prototype.slice(start, stop)\<close>. Each index goes through
  \<^verbatim>\<open>ToIntegerOrInfinity\<close> (\<^verbatim>\<open>NaN\<close> is 0, a fraction is truncated towards 0); a negative
  index counts from the end of the array; both are clamped to the array. The elements from
  the first index up to the second, which is excluded, are copied.
\<close>

definition truncated :: "real \<Rightarrow> int" where
  "truncated r = (if r < 0 then \<lceil>r\<rceil> else \<lfloor>r\<rfloor>)"

fun relativeIndex :: "nat \<Rightarrow> number \<Rightarrow> nat" where
  "relativeIndex len NaN = 0"
| "relativeIndex len MinusInfinity = 0"
| "relativeIndex len PlusInfinity = len"
| "relativeIndex len (Number r) =
     (if truncated r < 0 then nat (max (int len + truncated r) 0) else min (nat (truncated r)) len)"

definition slice :: "number \<Rightarrow> number \<Rightarrow> 'a list \<Rightarrow> 'a list" where
  "slice start stop xs =
     (let k = relativeIndex (length xs) start;
          final = relativeIndex (length xs) stop
      in drop k (take final xs))"

subsection \<open>executeTestCasesInParallel\<close>

text \<open>
  The first loop, \<^verbatim>\<open>for (let i = 0; i < testCases.length; i += maxConcurrency)\<close>, which
  pushes one slice per round; \<^verbatim>\<open>maxConcurrency\<close> is written \<open>limit\<close>. With a
  \<^verbatim>\<open>maxConcurrency\<close> of 0 or less and a test case to run it never ends: the loop is a
  partial function, \<open>None\<close> when it does not return.
\<close>

partial_function (option) chunksLoop ::
  "TestCase list \<Rightarrow> number \<Rightarrow> number \<Rightarrow> TestCase list list \<Rightarrow> TestCase list list option" where
  "chunksLoop testCases limit i chunks =
     (if belowLength i (length testCases)
      then chunksLoop testCases limit (numberAdd i limit)
             (chunks @ [slice i (numberAdd i limit) testCases])
      else Some chunks)"

declare chunksLoop.simps [code]

text \<open>
  The promise the callback of \<^verbatim>\<open>chunk.map\<close> makes for one test case: \<open>executeTestCase\<close>
  under a handler of its own, which builds a failed evaluation of execution time 0.
\<close>

definition chunkPromise :: "EvaluationExecutor \<Rightarrow> TestCase \<Rightarrow> (exn + TestCaseEvaluation) task" where
  "chunkPromise this tc =
     try_catch (executeTestCase this tc) (\<lambda>error. Done (Inr (failedEvaluation tc error 0)))"

text \<open>
  A task runs without interruption until it awaits an external call: \<open>advance t\<close> runs a task
  at time \<open>t\<close> up to its next \<^verbatim>\<open>await\<close> or its end.
\<close>

primrec advance :: "real \<Rightarrow> 'a task \<Rightarrow> 'a task" where
  "advance t (Done x) = Done x"
| "advance t (Now k) = advance t (k t)"
| "advance t (AwaitAgent inp k) = AwaitAgent inp k"
| "advance t (AwaitScore a b k) = AwaitScore a b k"

text \<open>
  \<^verbatim>\<open>Promise.all\<close>: rejected with the reason of a rejected promise, fulfilled with the values
  in the order of the promises once all are fulfilled, pending (\<open>None\<close>) otherwise.
\<close>

fun promise_all :: "(exn + 'a) task list \<Rightarrow> (exn + 'a list) option" where
  "promise_all [] = Some (Inr [])"
| "promise_all (Done (Inl e) # ps) = Some (Inl e)"
| "promise_all (Done (Inr v) # ps) =
     (case promise_all ps of
        Some (Inr vs) \<Rightarrow> Some (Inr (v # vs))
      | other \<Rightarrow> other)"
| "promise_all (p # ps) =
     (case promise_all ps of
        Some (Inl e) \<Rightarrow> Some (Inl e)
      | other \<Rightarrow> None)"

text \<open>
  The state of \<open>executeTestCasesInParallel\<close> while it awaits \<^verbatim>\<open>Promise.all(chunkPromises)\<close>:
  the results pushed so far, the chunk in hand with its promises, and the chunks the second
  loop has not reached. The call is running, has returned its results, or has thrown.
\<close>

record running =
  results :: "TestCaseEvaluation list"
  chunk :: "TestCase list"
  chunkPromises :: "(exn + TestCaseEvaluation) task list"
  remaining :: "TestCase list list"

datatype batch = Running running | Returned "TestCaseEvaluation list" | Rejected exn

text \<open>
  The second loop, \<^verbatim>\<open>for (const chunk of chunks)\<close>, entered at time \<open>t\<close> with the results so
  far: it maps the chunk to its promises, each run up to its first \<^verbatim>\<open>await\<close>, and awaits
  them all; when none of them is pending it pushes the results and takes the next chunk.
\<close>

fun forChunks :: "EvaluationExecutor \<Rightarrow> real \<Rightarrow> TestCaseEvaluation list \<Rightarrow> TestCase list list \<Rightarrow> batch" where
  "forChunks this t res [] = Returned res"
| "forChunks this t res (c # cs) =
     (let ps = map (\<lambda>testCase. advance t (chunkPromise this testCase)) c
      in case promise_all ps of
           Some (Inl e) \<Rightarrow> Rejected e
         | Some (Inr chunkResults) \<Rightarrow> forChunks this t (res @ chunkResults) cs
         | None \<Rightarrow> Running \<lparr> results = res, chunk = c, chunkPromises = ps, remaining = cs \<rparr>)"

definition executeTestCasesInParallel ::
  "EvaluationExecutor \<Rightarrow> TestCase list \<Rightarrow> number \<Rightarrow> real \<Rightarrow> batch option" where
  "executeTestCasesInParallel this testCases limit t =
     (case chunksLoop testCases limit (Number 0) [] of
        None \<Rightarrow> None
      | Some chunks \<Rightarrow> Some (forChunks this t [] chunks))"

text \<open>
  The environment of a running call. Each test case makes at most one call of the agent and
  at most one call of the scoring service; \<open>agent g inp\<close> is how the agent call made for the
  test case at index \<open>g\<close> of the input settles when its input is \<open>inp\<close>, with a thrown value
  (\<open>Inl\<close>) or an output, and \<open>scoring g a b\<close> is how the scoring call made for that test case
  on the strings \<open>a\<close> and \<open>b\<close> settles. An event \<open>(g, t)\<close> is the environment settling, at time
  \<open>t\<close>, the call that the test case at index \<open>g\<close> awaits. The order and the times of the events
  are the environment's.
\<close>

type_synonym agentCalls = "nat \<Rightarrow> AgentInput \<Rightarrow> exn + AgentOutput"

type_synonym scoringCalls = "nat \<Rightarrow> string \<Rightarrow> string \<Rightarrow> exn + real"

type_synonym event = "nat \<times> real"

text \<open>A promise whose call settles resumes and runs up to its next \<^verbatim>\<open>await\<close>.\<close>

fun resume ::
  "(AgentInput \<Rightarrow> exn + AgentOutput) \<Rightarrow> (string \<Rightarrow> string \<Rightarrow> exn + real) \<Rightarrow> real \<Rightarrow> 'a task \<Rightarrow> 'a task" where
  "resume agent scoring t (AwaitAgent inp k) = advance t (k (agent inp))"
| "resume agent scoring t (AwaitScore a b k) = advance t (k (scoring a b))"
| "resume agent scoring t p = p"

text \<open>
  The chunks are consecutive slices and every chunk before the one in hand has pushed its
  results, so the promise at position \<open>j\<close> of the chunk in hand is that of the test case at
  index \<open>length results + j\<close>. An event for that test case resumes its promise; then
  \<^verbatim>\<open>Promise.all\<close> is looked at again. An event for a test case whose chunk is not in hand,
  or whose promise awaits nothing, changes nothing.
\<close>

fun deliver :: "EvaluationExecutor \<Rightarrow> agentCalls \<Rightarrow> scoringCalls \<Rightarrow> event \<Rightarrow> batch \<Rightarrow> batch" where
  "deliver this agent scoring (g, t) (Running st) =
     (let first = length (results st)
      in if first \<le> g \<and> g < first + length (chunkPromises st)
         then let ps = (chunkPromises st)
                         [g - first := resume (agent g) (scoring g) t (chunkPromises st ! (g - first))]
              in case promise_all ps of
                   Some (Inl e) \<Rightarrow> Rejected e
                 | Some (Inr chunkResults) \<Rightarrow>
                     forChunks this t (results st @ chunkResults) (remaining st)
                 | None \<Rightarrow> Running (st\<lparr> chunkPromises := ps \<rparr>)
         else Running st)"
| "deliver this agent scoring ev b = b"

definition deliverAll ::
  "EvaluationExecutor \<Rightarrow> agentCalls \<Rightarrow> scoringCalls \<Rightarrow> event list \<Rightarrow> batch \<Rightarrow> batch" where
  "deliverAll this agent scoring evs b = fold (deliver this agent scoring) evs b"

text \<open>The agent invocations in flight: the promises of the chunk that await the agent.\<close>

fun awaitsAgent :: "'a task \<Rightarrow> bool" where
  "awaitsAgent (AwaitAgent inp k) = True"
| "awaitsAgent p = False"

fun inFlight :: "batch \<Rightarrow> nat" where
  "inFlight (Running st) = length (filter awaitsAgent (chunkPromises st))"
| "inFlight b = 0"

subsection \<open>evaluateFromDirectory\<close>

text \<open>
  The loader is a collaborator of the executor (\<^verbatim>\<open>parser/loader\<close>): the executor reads the
  \<^verbatim>\<open>testCases\<close> of its result and nothing else.
\<close>

record LoadError =
  filePath :: string
  message :: string

record LoadResult =
  testCases :: "TestCase list"
  errors :: "LoadError list"

text \<open>\<^verbatim>\<open>Array.prototype.join\<close>.\<close>

fun join :: "string \<Rightarrow> string list \<Rightarrow> string" where
  "join sep [] = []"
| "join sep [x] = x"
| "join sep (x # xs) = x @ sep @ join sep xs"

text \<open>
  One entry of the report's \<^verbatim>\<open>results\<close>. For a test case without message blocks,
  \<^verbatim>\<open>messageBlocks[messageBlocks.length - 1]\<close> is \<^verbatim>\<open>undefined\<close> and reading its
  \<^verbatim>\<open>content\<close> throws a \<^verbatim>\<open>TypeError\<close>. \<^verbatim>\<open>result.response || ''\<close> replaces an empty
  response by the empty string.
\<close>

definition resultEntry :: "real \<Rightarrow> TestCaseEvaluation \<Rightarrow> exn + EvaluationResult" where
  "resultEntry date result =
     (let blocks = messageBlocks (testCase result)
      in if blocks = [] then Inl (Error ''Cannot read properties of undefined (reading 'content')'')
         else Inr \<lparr> EvaluationResult.testCase =
                      \<lparr> id_rc = testCaseId result,
                        input = join [CHR 0x0A] (map MessageBlock.content (butlast blocks)),
                        expected = MessageBlock.content (blocks ! (length blocks - 1)) \<rparr>,
                    EvaluationResult.score = score result,
                    passed = success result,
                    EvaluationResult.error = error result,
                    EvaluationResult.timestamp = date,
                    EvaluationResult.response =
                      (if response result = [] then [] else response result) \<rparr>)"

text \<open>\<^verbatim>\<open>results.map\<close> with that callback: the first entry that throws ends the map.\<close>

fun resultEntries :: "real \<Rightarrow> TestCaseEvaluation list \<Rightarrow> exn + EvaluationResult list" where
  "resultEntries date [] = Inr []"
| "resultEntries date (r # rs) =
     (case resultEntry date r of
        Inl e \<Rightarrow> Inl e
      | Inr x \<Rightarrow> (case resultEntries date rs of Inl e \<Rightarrow> Inl e | Inr xs \<Rightarrow> Inr (x # xs)))"

text \<open>The report built from the results of the batch, the duration in seconds and the date.\<close>

definition buildReport :: "real \<Rightarrow> real \<Rightarrow> TestCaseEvaluation list \<Rightarrow> exn + EvaluationReport" where
  "buildReport seconds date rs =
     (let passedCount = int (length (filter success rs));
          totalCount = int (length rs);
          failedCount = totalCount - passedCount;
          rate = (if totalCount > 0 then real_of_int passedCount / real_of_int totalCount else 0)
      in case resultEntries date rs of
           Inl e \<Rightarrow> Inl e
         | Inr entries \<Rightarrow>
             Inr \<lparr> totalTests = totalCount, passedTests = passedCount, failedTests = failedCount,
                   passRate = rate, results = entries, EvaluationReport.timestamp = date,
                   duration = seconds \<rparr>)"

text \<open>
  What the environment gives one call of \<open>evaluateFromDirectory\<close>: the clock readings at entry,
  when the loader has returned and when the batch has returned, the settlements of the
  external calls, and the date.
\<close>

record environment =
  startTime :: real
  loadedTime :: real
  settled :: "event list"
  endTime :: real
  today :: real

text \<open>
  \<open>evaluateFromDirectory\<close> returns a report or throws (\<open>Some\<close>), or has not returned (\<open>None\<close>):
  the first loop does not end, or a call of the batch has not settled.
\<close>

definition evaluateFromDirectory ::
  "EvaluationExecutor \<Rightarrow> agentCalls \<Rightarrow> scoringCalls \<Rightarrow> (string \<Rightarrow> bool \<Rightarrow> LoadResult) \<Rightarrow>
   string \<Rightarrow> bool \<Rightarrow> environment \<Rightarrow> (exn + EvaluationReport) option" where
  "evaluateFromDirectory this agent scoringService loadFromDirectory directoryPath stopOnError env =
     (let loadResult = loadFromDirectory directoryPath stopOnError
      in case executeTestCasesInParallel this (testCases loadResult)
                (EvaluationExecutor.maxConcurrency this) (loadedTime env) of
           None \<Rightarrow> None
         | Some b \<Rightarrow>
             (case deliverAll this agent scoringService (settled env) b of
                Running st \<Rightarrow> None
              | Rejected e \<Rightarrow> Some (Inl e)
              | Returned rs \<Rightarrow>
                  Some (buildReport ((endTime env - startTime env) / 1000) (today env) rs)))"

text \<open>The report of a run without test cases.\<close>

definition emptyReport :: "environment \<Rightarrow> EvaluationReport" where
  "emptyReport env =
     \<lparr> totalTests = 0, passedTests = 0, failedTests = 0, passRate = 0, results = [],
       EvaluationReport.timestamp = today env,
       duration = (endTime env - startTime env) / 1000 \<rparr>"

section \<open>Tokenizer, parser and loader\<close>

text \<open>
  The sources of \<^verbatim>\<open>parser/tokenizer\<close>, \<^verbatim>\<open>parser/parser\<close> and \<^verbatim>\<open>parser/loader\<close>
  are missing from the sources at hand; their tests are there. The three are modelled from
  the specification, sections 3, 4.1 to 4.3 and 6, and agree with those tests.
\<close>

text \<open>
  Modelled from the spec: part of the tokenizer, \<^verbatim>\<open>parser/tokenizer\<close>,
  whose source is missing; the token of section 3, \<^verbatim>\<open>{ type: role | content |
  tool_use | tool_response, value }\<close>.
\<close>

datatype TokenType = T_role | T_content | T_tool_use | T_tool_response

record Token =
  type_tok :: TokenType
  value_tok :: string

text \<open>
  Modelled from the spec: part of the tokenizer, \<^verbatim>\<open>parser/tokenizer\<close>,
  whose source is missing; the errors of section 7, each with its message.
\<close>

datatype TokenizeError = TokenizeError string

datatype ParseError = ParseError string

text \<open>
  Modelled from the spec: part of the tokenizer, \<^verbatim>\<open>parser/tokenizer\<close>,
  whose source is missing; section 4.1, "split input on any newline variant
  (\<^verbatim>\<open>\n\<close>, \<^verbatim>\<open>\r\n\<close>, or lone
  \<^verbatim>\<open>\r\<close>)".
\<close>

fun splitLines :: "string \<Rightarrow> string list" where
  "splitLines [] = [[]]"
| "splitLines (c # cs) =
     (if c = CHR 0x0D
      then (case cs of
              d # ds \<Rightarrow> if d = CHR 0x0A then [] # splitLines ds else [] # splitLines cs
            | [] \<Rightarrow> [] # splitLines cs)
      else if c = CHR 0x0A then [] # splitLines cs
      else (case splitLines cs of l # ls \<Rightarrow> (c # l) # ls | [] \<Rightarrow> [[c]]))"

text \<open>
  Modelled from the spec: part of the tokenizer, \<^verbatim>\<open>parser/tokenizer\<close>,
  whose source is missing; the labels of the grammar of section 6,
  \<^verbatim>\<open>user|assistant|system|developer|human agent|tool\<close>, and the two tool
  markers.
\<close>

definition roleLabels :: "string list" where
  "roleLabels = [''user'', ''assistant'', ''system'', ''developer'', ''human agent'', ''tool'']"

definition toolMarkers :: "string list" where
  "toolMarkers = [''tool use'', ''tool response'']"

text \<open>
  Modelled from the spec: part of the tokenizer, \<^verbatim>\<open>parser/tokenizer\<close>,
  whose source is missing; the message of section 4.1, "Invalid role: <label>. Valid roles are:
  user, assistant, human agent[, ...]"; the tokenizer's test expects this text, and the spec
  leaves open what follows it.
\<close>

definition validRolesText :: string where
  "validRolesText = ''user, assistant, human agent''"

definition invalidRole :: "string \<Rightarrow> string" where
  "invalidRole label = ''Invalid role: '' @ label @ ''. Valid roles are: '' @ validRolesText"

text \<open>
  Modelled from the spec: part of the tokenizer, \<^verbatim>\<open>parser/tokenizer\<close>,
  whose source is missing; the text before the first colon of a line trimmed of leading
  whitespace (section 4.1 and design note 1), the text after that colon, and the optional
  whitespace character \<^verbatim>\<open>\s?\<close> of the grammar of section 6.
\<close>

definition labelOf :: "string \<Rightarrow> string" where
  "labelOf line = takeWhile (\<lambda>c. c \<noteq> CHR '':'') (trimStart line)"

definition afterColon :: "string \<Rightarrow> string" where
  "afterColon line = tl (dropWhile (\<lambda>c. c \<noteq> CHR '':'') (trimStart line))"

definition dropSpace :: "string \<Rightarrow> string" where
  "dropSpace s = (case s of [] \<Rightarrow> [] | c # cs \<Rightarrow> if isWhiteSpace c then cs else s)"

text \<open>
  Modelled from the spec: part of the tokenizer, \<^verbatim>\<open>parser/tokenizer\<close>,
  whose source is missing; the kinds of line of section 4.1. A line with no colon, or with
  nothing before its first colon, is content; \<^verbatim>\<open>tool use:\<close> and
  \<^verbatim>\<open>tool response:\<close> are tool markers; a Role label followed by the colon
  opens a role block; any other label is an invalid role.
\<close>

datatype Line =
    RoleLine string string
  | ToolUseLine string
  | ToolResponseLine string
  | PlainLine
  | InvalidLine string

definition classify :: "string \<Rightarrow> Line" where
  "classify line =
     (if CHR '':'' \<notin> set (trimStart line) \<or> labelOf line = [] then PlainLine
      else if labelOf line = ''tool use'' then ToolUseLine (dropSpace (afterColon line))
      else if labelOf line = ''tool response'' then ToolResponseLine (dropSpace (afterColon line))
      else if labelOf line \<in> set roleLabels then RoleLine (labelOf line) (dropSpace (afterColon line))
      else InvalidLine (labelOf line))"

text \<open>
  Modelled from the spec: part of the tokenizer, \<^verbatim>\<open>parser/tokenizer\<close>,
  whose source is missing; section 4.1, a line that matches neither pattern extends the content
  token when that is the most recently opened token, joined by a line break. The spec does not
  say where such a line goes before the first role line or after a tool line (tool tokens do not
  accumulate): here it is dropped.
\<close>

definition appendLine :: "Token list \<Rightarrow> string \<Rightarrow> Token list" where
  "appendLine toks line =
     (if toks \<noteq> [] \<and> type_tok (last toks) = T_content
      then butlast toks @ [(last toks)\<lparr> value_tok := value_tok (last toks) @ [CHR 0x0A] @ line \<rparr>]
      else toks)"

text \<open>
  Modelled from the spec: part of the tokenizer, \<^verbatim>\<open>parser/tokenizer\<close>,
  whose source is missing; the scan of section 4.1, line by line; a role line emits a role token
  and a content token holding the rest of the line; the first invalid label ends the scan with a
  \<open>TokenizeError\<close>.
\<close>

fun tokenizeLines :: "string list \<Rightarrow> Token list \<Rightarrow> TokenizeError + Token list" where
  "tokenizeLines [] toks = Inr toks"
| "tokenizeLines (line # lines) toks =
     (case classify line of
        InvalidLine label \<Rightarrow> Inl (TokenizeError (invalidRole label))
      | RoleLine label rest \<Rightarrow>
          tokenizeLines lines
            (toks @ [\<lparr> type_tok = T_role, value_tok = label \<rparr>, \<lparr> type_tok = T_content, value_tok = rest \<rparr>])
      | ToolUseLine v \<Rightarrow> tokenizeLines lines (toks @ [\<lparr> type_tok = T_tool_use, value_tok = v \<rparr>])
      | ToolResponseLine v \<Rightarrow> tokenizeLines lines (toks @ [\<lparr> type_tok = T_tool_response, value_tok = v \<rparr>])
      | PlainLine \<Rightarrow> tokenizeLines lines (appendLine toks line))"

text \<open>
  Modelled from the spec: part of the tokenizer, \<^verbatim>\<open>parser/tokenizer\<close>,
  whose source is missing; \<^verbatim>\<open>tokenize\<close> of section 4.1. The content
  values are trimmed, as the tokenizer's tests expect (\<^verbatim>\<open>Hello\<close> followed
  by blank lines gives \<^verbatim>\<open>Hello\<close>).
\<close>

definition trimContent :: "Token \<Rightarrow> Token" where
  "trimContent t = (if type_tok t = T_content then t\<lparr> value_tok := trim (value_tok t) \<rparr> else t)"

definition tokenize :: "string \<Rightarrow> TokenizeError + Token list" where
  "tokenize transcript =
     (case tokenizeLines (splitLines transcript) [] of
        Inl e \<Rightarrow> Inl e
      | Inr toks \<Rightarrow> Inr (map trimContent toks))"

text \<open>
  Modelled from the spec: part of the parser, \<^verbatim>\<open>parser/parser\<close>, whose
  source is missing; the Role of a label (section 3).
\<close>

definition roleOf :: "string \<Rightarrow> MessageRole option" where
  "roleOf label =
     map_of [(''user'', USER), (''assistant'', ASSISTANT), (''system'', SYSTEM),
             (''developer'', DEVELOPER), (''human agent'', HUMAN_AGENT), (''tool'', TOOL)] label"

text \<open>
  Modelled from the spec: part of the parser, \<^verbatim>\<open>parser/parser\<close>, whose
  source is missing; section 4.2, a tool use is "<name> args: <json>", split on the first
  \<^verbatim>\<open>args:\<close> marker; the name is trimmed. The parser's test "should
  handle tool usage with args as string" expects the args without the space that follows the
  marker; the spec does not say how much whitespace goes with the marker: here the one
  whitespace character after it does, as after the colon of a line (\<^verbatim>\<open>\s?\<close>
  in the grammar of section 6), and the rest is stored as written. Without a marker the text
  after it is empty.
\<close>

fun splitAtFirst :: "string \<Rightarrow> string \<Rightarrow> string \<times> string" where
  "splitAtFirst marker [] = ([], [])"
| "splitAtFirst marker (c # cs) =
     (if take (length marker) (c # cs) = marker then ([], drop (length marker) (c # cs))
      else (case splitAtFirst marker cs of (before, after) \<Rightarrow> (c # before, after)))"

definition toolName :: "string \<Rightarrow> string" where
  "toolName v = trim (fst (splitAtFirst ''args:'' v))"

definition toolArgsText :: "string \<Rightarrow> string" where
  "toolArgsText v = snd (splitAtFirst ''args:'' v)"

text \<open>
  Modelled from the spec: part of the parser, \<^verbatim>\<open>parser/parser\<close>, whose
  source is missing; the message of section 4.2.
\<close>

definition toolArgsError :: string where
  "toolArgsError = ''Tool args must be valid JSON''"

text \<open>
  Modelled from the spec: part of the parser, \<^verbatim>\<open>parser/parser\<close>, whose
  source is missing; section 4.2, a block is pushed "after trimming its content".
\<close>

definition finalize :: "MessageBlock option \<Rightarrow> MessageBlock list" where
  "finalize current =
     (case current of
        None \<Rightarrow> []
      | Some b \<Rightarrow> [b\<lparr> MessageBlock.content := trim (MessageBlock.content b) \<rparr>])"

text \<open>
  Modelled from the spec: part of the parser, \<^verbatim>\<open>parser/parser\<close>, whose
  source is missing; the walk of section 4.2 over the tokens, with the blocks pushed and the
  current block. \<open>validJSON\<close> stands for \<^verbatim>\<open>JSON.parse\<close>
  accepting a text. The spec does not say what a content or tool token does when no block is
  open: here it is validated and dropped.
\<close>

fun buildBlocks ::
  "(string \<Rightarrow> bool) \<Rightarrow> Token list \<Rightarrow> MessageBlock list \<Rightarrow> MessageBlock option \<Rightarrow>
   ParseError + MessageBlock list" where
  "buildBlocks validJSON [] blocks current = Inr (blocks @ finalize current)"
| "buildBlocks validJSON (t # ts) blocks current =
     (case type_tok t of
        T_role \<Rightarrow>
          (case roleOf (value_tok t) of
             None \<Rightarrow> Inl (ParseError (invalidRole (value_tok t)))
           | Some r \<Rightarrow>
               buildBlocks validJSON ts (blocks @ finalize current)
                 (Some \<lparr> MessageBlock.role = r, MessageBlock.content = [], toolUsages = [],
                         toolResponses = [] \<rparr>))
      | T_content \<Rightarrow>
          buildBlocks validJSON ts blocks
            (map_option (\<lambda>b. b\<lparr> MessageBlock.content := value_tok t \<rparr>) current)
      | T_tool_use \<Rightarrow>
          (if \<not> validJSON (toolArgsText (value_tok t)) then Inl (ParseError toolArgsError)
           else buildBlocks validJSON ts blocks
                  (map_option
                     (\<lambda>b. b\<lparr> toolUsages := toolUsages b @
                              [\<lparr> ToolUsage.name = toolName (value_tok t),
                                 args = dropSpace (toolArgsText (value_tok t)) \<rparr>] \<rparr>)
                     current))
      | T_tool_response \<Rightarrow>
          buildBlocks validJSON ts blocks
            (map_option
               (\<lambda>b. b\<lparr> toolResponses := toolResponses b @ [\<lparr> ToolResponse.content = value_tok t \<rparr>] \<rparr>)
               current))"

text \<open>
  Modelled from the spec: part of the parser, \<^verbatim>\<open>parser/parser\<close>, whose
  source is missing; \<^verbatim>\<open>parse(text, name)\<close> of section 4.2; a
  \<open>TokenizeError\<close> surfaces as a \<open>ParseError\<close> with the same message;
  the \<^verbatim>\<open>id\<close> is left empty for the loader.
\<close>

definition parse :: "(string \<Rightarrow> bool) \<Rightarrow> string \<Rightarrow> string \<Rightarrow> ParseError + TestCase" where
  "parse validJSON transcript caseName =
     (case tokenize transcript of
        Inl (TokenizeError m) \<Rightarrow> Inl (ParseError m)
      | Inr toks \<Rightarrow>
          (case buildBlocks validJSON toks [] None of
             Inl e \<Rightarrow> Inl e
           | Inr blocks \<Rightarrow> Inr \<lparr> id_tc = [], TestCase.name = caseName, messageBlocks = blocks \<rparr>))"

text \<open>
  Modelled from the spec: part of the loader, \<^verbatim>\<open>parser/loader\<close>, whose
  source is missing; what the loader of section 4.3 reads, the names in a directory in
  enumeration order and the text of a file, each of which can fail.
\<close>

record fileSystem =
  readdir :: "string \<Rightarrow> exn + string list"
  readFile :: "string \<Rightarrow> exn + string"

text \<open>
  Modelled from the spec: part of the loader, \<^verbatim>\<open>parser/loader\<close>, whose
  source is missing; the path of a file of the directory, and the "base name without extension"
  of section 4.3.
\<close>

definition joinPath :: "string \<Rightarrow> string \<Rightarrow> string" where
  "joinPath dir file = dir @ ''/'' @ file"

definition baseName :: "string \<Rightarrow> string" where
  "baseName file =
     (if CHR ''.'' \<in> set file then rev (tl (dropWhile (\<lambda>c. c \<noteq> CHR ''.'') (rev file))) else file)"

text \<open>
  Modelled from the spec: part of the loader, \<^verbatim>\<open>parser/loader\<close>, whose
  source is missing; one file of section 4.3, read, parsed under its base name, and given that
  name as \<^verbatim>\<open>id\<close>; a failure is an error entry with the file's path.
\<close>

definition loadFile ::
  "(string \<Rightarrow> bool) \<Rightarrow> fileSystem \<Rightarrow> string \<Rightarrow> string \<Rightarrow> LoadError + TestCase" where
  "loadFile validJSON fs directoryPath file =
     (let path = joinPath directoryPath file
      in case readFile fs path of
           Inl e \<Rightarrow> Inl \<lparr> filePath = path, message = errorMessage e \<rparr>
         | Inr transcript \<Rightarrow>
             (case parse validJSON transcript (baseName file) of
                Inl (ParseError m) \<Rightarrow> Inl \<lparr> filePath = path, message = m \<rparr>
              | Inr tc \<Rightarrow> Inr (tc\<lparr> id_tc := baseName file \<rparr>)))"

text \<open>
  Modelled from the spec: part of the loader, \<^verbatim>\<open>parser/loader\<close>, whose
  source is missing; the loop of section 4.3 over the files, which stops at the first error when
  \<^verbatim>\<open>stopOnError\<close> is set. The loop is part of an \<^verbatim>\<open>async\<close>
  function: it ends with the result (\<open>Inr\<close>) or with a thrown value (\<open>Inl\<close>).
\<close>

fun loadFiles ::
  "(string \<Rightarrow> bool) \<Rightarrow> fileSystem \<Rightarrow> string \<Rightarrow> bool \<Rightarrow> string list \<Rightarrow> LoadResult \<Rightarrow>
   exn + LoadResult" where
  "loadFiles validJSON fs directoryPath stopOnError [] result = Inr result"
| "loadFiles validJSON fs directoryPath stopOnError (file # files) result =
     (case loadFile validJSON fs directoryPath file of
        Inr tc \<Rightarrow>
          loadFiles validJSON fs directoryPath stopOnError files
            (result\<lparr> testCases := testCases result @ [tc] \<rparr>)
      | Inl err \<Rightarrow>
          (let result' = result\<lparr> errors := errors result @ [err] \<rparr>
           in if stopOnError then Inr result'
              else loadFiles validJSON fs directoryPath stopOnError files result'))"

text \<open>
  Modelled from the spec: part of the loader, \<^verbatim>\<open>parser/loader\<close>, whose
  source is missing; \<^verbatim>\<open>loadFromDirectory(path, stopOnError)\<close> of section
  4.3, which returns a result (\<open>Inr\<close>) or throws (\<open>Inl\<close>); \<open>accepted\<close>
  says which file names have an accepted extension; a directory that cannot be read gives one
  error entry whose \<^verbatim>\<open>filePath\<close> is the directory path.
\<close>

definition loadFromDirectory ::
  "(string \<Rightarrow> bool) \<Rightarrow> (string \<Rightarrow> bool) \<Rightarrow> fileSystem \<Rightarrow> string \<Rightarrow> bool \<Rightarrow> exn + LoadResult" where
  "loadFromDirectory accepted validJSON fs directoryPath stopOnError =
     (case readdir fs directoryPath of
        Inl e \<Rightarrow>
          Inr \<lparr> testCases = [], errors = [\<lparr> filePath = directoryPath, message = errorMessage e \<rparr>] \<rparr>
      | Inr files \<Rightarrow>
          loadFiles validJSON fs directoryPath stopOnError (filter accepted files)
            \<lparr> testCases = [], errors = [] \<rparr>)"

subsection \<open>Predicates on transcripts, tokens and outcomes\<close>

text \<open>
  Used to state the properties below. A line is offending when it has a colon and its label,
  the text before the first colon, is not empty, not a tool marker and not a Role label.
\<close>

definition offending :: "string \<Rightarrow> bool" where
  "offending line =
     (CHR '':'' \<in> set (trimStart line) \<and> labelOf line \<noteq> [] \<and>
      labelOf line \<notin> set toolMarkers \<and> labelOf line \<notin> set roleLabels)"

text \<open>
  \<open>firstArgsMarker v before after\<close>: the first \<^verbatim>\<open>args:\<close> of \<open>v\<close> stands between \<open>before\<close>
  and \<open>after\<close>.
\<close>

definition firstArgsMarker :: "string \<Rightarrow> string \<Rightarrow> string \<Rightarrow> bool" where
  "firstArgsMarker v before after =
     (v = before @ ''args:'' @ after \<and> (\<forall>i<length before. take 5 (drop i v) \<noteq> ''args:''))"

text \<open>The values of the tool-use tokens; the role tokens hold Role labels.\<close>

definition toolUseValues :: "Token list \<Rightarrow> string list" where
  "toolUseValues toks = map value_tok (filter (\<lambda>t. type_tok t = T_tool_use) toks)"

definition roles_valid :: "Token list \<Rightarrow> bool" where
  "roles_valid toks = (\<forall>t\<in>set toks. type_tok t = T_role \<longrightarrow> value_tok t \<in> set roleLabels)"

text \<open>
  The role lines and the tool use lines of a transcript, in order, as marks, and the marks of
  a token list. \<open>toolsOf\<close> are the values of the tool use marks up to the next role mark;
  \<open>blocksOf\<close> gives, for every role mark in order, the values of the tool use marks between
  it and the next role mark. The tool uses by block of a transcript are, for every role line
  in order, the values of the \<^verbatim>\<open>tool use:\<close> lines between it and the next role line; a
  \<^verbatim>\<open>tool use:\<close> line before the first role line is in none.
\<close>

datatype mark = RoleMark | ToolUseMark string

definition lineMarks :: "string \<Rightarrow> mark list" where
  "lineMarks line =
     (case classify line of
        RoleLine label rest \<Rightarrow> [RoleMark]
      | ToolUseLine v \<Rightarrow> [ToolUseMark v]
      | other \<Rightarrow> [])"

definition tokenMarks :: "Token list \<Rightarrow> mark list" where
  "tokenMarks toks =
     concat (map (\<lambda>t. case type_tok t of
                          T_role \<Rightarrow> [RoleMark]
                        | T_tool_use \<Rightarrow> [ToolUseMark (value_tok t)]
                        | other \<Rightarrow> []) toks)"

fun toolsOf :: "mark list \<Rightarrow> string list" where
  "toolsOf [] = []"
| "toolsOf (RoleMark # ms) = []"
| "toolsOf (ToolUseMark v # ms) = v # toolsOf ms"

fun blocksOf :: "mark list \<Rightarrow> string list list" where
  "blocksOf [] = []"
| "blocksOf (RoleMark # ms) = toolsOf ms # blocksOf ms"
| "blocksOf (ToolUseMark v # ms) = blocksOf ms"

definition toolUsesByBlock :: "string \<Rightarrow> string list list" where
  "toolUsesByBlock transcript = blocksOf (concat (map lineMarks (splitLines transcript)))"

text \<open>The test cases and the errors among the outcomes of the files of a directory.\<close>

definition parsedOf :: "(LoadError + TestCase) list \<Rightarrow> TestCase list" where
  "parsedOf outcomes = [tc. Inr tc \<leftarrow> outcomes]"

definition failedOf :: "(LoadError + TestCase) list \<Rightarrow> LoadError list" where
  "failedOf outcomes = [err. Inl err \<leftarrow> outcomes]"

definition parsed :: "LoadError + TestCase \<Rightarrow> bool" where
  "parsed outcome = (\<not> isl outcome)"

section \<open>Predicates and examples for the executor\<close>

subsection \<open>Predicates on tasks and on the running call\<close>

text \<open>
  Used to state and prove the properties below, not part of the program. \<open>settles_to agent
  scoring P p\<close>: when the calls that the task \<open>p\<close> awaits settle as \<open>agent\<close> and \<open>scoring\<close>
  say, at whatever times, \<open>p\<close> settles with a value that satisfies \<open>P\<close>. \<open>settles_in p n\<close>: the
  task settles after at most \<open>n\<close> settlements of external calls, however they settle.
\<close>

primrec settles_to ::
  "(AgentInput \<Rightarrow> exn + AgentOutput) \<Rightarrow> (string \<Rightarrow> string \<Rightarrow> exn + real) \<Rightarrow> ('a \<Rightarrow> bool) \<Rightarrow>
   'a task \<Rightarrow> bool" where
  "settles_to agent scoring P (Done x) = P x"
| "settles_to agent scoring P (Now k) = (\<forall>t. settles_to agent scoring P (k t))"
| "settles_to agent scoring P (AwaitAgent inp k) = settles_to agent scoring P (k (agent inp))"
| "settles_to agent scoring P (AwaitScore a b k) = settles_to agent scoring P (k (scoring a b))"


text \<open>
  The reference for the results of the batch: \<open>executeTestCase\<close> run alone (with \<open>run\<close>, one
  call after the other) for one test case, with an agent call and a scoring call that settle
  as \<open>agent\<close> and \<open>scoring\<close> say and a clock that stands still, so that the execution time is 0.
  \<open>untimed\<close> forgets the execution time of an evaluation, the one field that depends on when
  the calls settle. \<open>expectedResults\<close> lists, for every index \<open>g\<close> of the input, the reference
  for the test case at \<open>g\<close> under the calls made for \<open>g\<close>.
\<close>

definition executeTestCaseAlone ::
  "EvaluationExecutor \<Rightarrow> (AgentInput \<Rightarrow> exn + AgentOutput) \<Rightarrow> (string \<Rightarrow> string \<Rightarrow> exn + real) \<Rightarrow>
   TestCase \<Rightarrow> exn + TestCaseEvaluation" where
  "executeTestCaseAlone this agent scoring tc =
     fst (run (\<lambda>w. 0) (\<lambda>inp w. (agent inp, w)) (\<lambda>a b w. (scoring a b, w)) (executeTestCase this tc) ())"

definition untimed :: "TestCaseEvaluation \<Rightarrow> TestCaseEvaluation" where
  "untimed ev = ev\<lparr> executionTime := 0 \<rparr>"

definition expectedResults ::
  "EvaluationExecutor \<Rightarrow> agentCalls \<Rightarrow> scoringCalls \<Rightarrow> TestCase list \<Rightarrow> (exn + TestCaseEvaluation) list" where
  "expectedResults this agent scoring tcs =
     map (\<lambda>g. executeTestCaseAlone this (agent g) (scoring g) (tcs ! g)) [0..<length tcs]"


fun suspended :: "'a task \<Rightarrow> bool" where
  "suspended (Now k) = False"
| "suspended p = True"


text \<open>
  A settled promise fulfils the test case \<open>tc\<close> when it is fulfilled with the reference
  evaluation of \<open>tc\<close>, up to the execution time; a promise is promised to \<open>tc\<close> when it is
  suspended and settles so.
\<close>

definition fulfils ::
  "EvaluationExecutor \<Rightarrow> (AgentInput \<Rightarrow> exn + AgentOutput) \<Rightarrow> (string \<Rightarrow> string \<Rightarrow> exn + real) \<Rightarrow>
   TestCase \<Rightarrow> exn + TestCaseEvaluation \<Rightarrow> bool" where
  "fulfils this agent scoring tc r =
     (case r of Inl e \<Rightarrow> False | Inr ev \<Rightarrow> executeTestCaseAlone this agent scoring tc = Inr (untimed ev))"

definition promised ::
  "EvaluationExecutor \<Rightarrow> (AgentInput \<Rightarrow> exn + AgentOutput) \<Rightarrow> (string \<Rightarrow> string \<Rightarrow> exn + real) \<Rightarrow>
   TestCase \<Rightarrow> (exn + TestCaseEvaluation) task \<Rightarrow> bool" where
  "promised this agent scoring tc p =
     (settles_to agent scoring (fulfils this agent scoring tc) p \<and> suspended p)"

text \<open>
  The running call is in order for the chunks of the first loop: the results pushed are the
  reference evaluations of the test cases of the first \<open>n\<close> chunks, in their order and up to
  the execution times, the chunk in hand is chunk \<open>n\<close> with one promise per test case, some
  promise is pending, and the chunks after it have not been started.
\<close>

definition in_order ::
  "EvaluationExecutor \<Rightarrow> agentCalls \<Rightarrow> scoringCalls \<Rightarrow> TestCase list \<Rightarrow> TestCase list list \<Rightarrow> batch \<Rightarrow> bool" where
  "in_order this agent scoring tcs chunks b =
     (case b of
        Running st \<Rightarrow>
          (\<exists>n<length chunks.
             map (\<lambda>ev. Inr (untimed ev)) (results st) =
               take (length (concat (take n chunks))) (expectedResults this agent scoring tcs) \<and>
             chunk st = chunks ! n \<and> remaining st = drop (Suc n) chunks \<and>
             list_all2 (\<lambda>p g. promised this (agent g) (scoring g) (tcs ! g) p) (chunkPromises st)
               [length (results st)..<length (results st) + length (chunk st)] \<and>
             promise_all (chunkPromises st) = None)
      | Returned rs \<Rightarrow> map (\<lambda>ev. Inr (untimed ev)) rs = expectedResults this agent scoring tcs
      | Rejected e \<Rightarrow> False)"


subsection \<open>Examples\<close>

definition block :: "MessageRole \<Rightarrow> string \<Rightarrow> MessageBlock" where
  "block r c = \<lparr> MessageBlock.role = r, MessageBlock.content = c, toolUsages = [], toolResponses = [] \<rparr>"

text \<open>The transcript \<^verbatim>\<open>user: hi / assistant: hello\<close>, and a test case of one block.\<close>

definition greeting :: TestCase where
  "greeting = \<lparr> id_tc = ''greeting'', name = ''greeting'',
                 messageBlocks = [block USER ''hi'', block ASSISTANT ''hello''] \<rparr>"

definition lonely :: TestCase where
  "lonely = \<lparr> id_tc = ''lonely'', name = ''lonely'', messageBlocks = [block USER ''hi''] \<rparr>"

text \<open>
  A world that is only a clock (milliseconds): an agent that answers \<^verbatim>\<open>hello\<close> after
  5 ms, and a scoring service that gives 1 to equal strings and 0 to others after 10 ms.
\<close>

definition helloAgent :: "AgentInput \<Rightarrow> real \<Rightarrow> (exn + AgentOutput) \<times> real" where
  "helloAgent inp w = (Inr \<lparr> AgentOutput.response = '' hello '' \<rparr>, w + 5)"

definition exactScoring :: "string \<Rightarrow> string \<Rightarrow> real \<Rightarrow> (exn + real) \<times> real" where
  "exactScoring a b w = (Inr (if a = b then 1 else 0), w + 10)"

definition defaultExecutor :: EvaluationExecutor where
  "defaultExecutor = constructor \<lparr> EvaluationConfig.threshold = None, EvaluationConfig.maxConcurrency = None \<rparr>"

definition reading :: "real \<Rightarrow> real" where
  "reading w = w"

text \<open>What \<open>executeTestCase\<close> returns for \<open>greeting\<close> in that world, started at time 0.\<close>

definition greetingEvaluation :: TestCaseEvaluation where
  "greetingEvaluation =
     \<lparr> testCaseId = ''greeting'', success = True, error = None, score = 1,
       executionTime = 5, response = '' hello '', testCase = greeting \<rparr>"

text \<open>
  Three test cases run two at a time. The agent call of the first test case throws a value
  that is no \<^verbatim>\<open>Error\<close>, the others answer \<^verbatim>\<open>hello\<close>; the scoring service gives
  1 to equal strings and 0 to others. The first agent call settles at 5 ms, which ends the
  first chunk; the agent call and the scoring call of the third test case settle at 7 and
  9 ms. \<open>threeEvaluations\<close> are the results of that run.
\<close>

definition threeCases :: "TestCase list" where
  "threeCases = [greeting, lonely, greeting]"

definition throwingFirst :: agentCalls where
  "throwingFirst g inp = (if g = 0 then Inl NonError else Inr \<lparr> AgentOutput.response = ''hello'' \<rparr>)"

definition exactScores :: scoringCalls where
  "exactScores g a b = Inr (if a = b then 1 else 0)"

definition settlements :: "event list" where
  "settlements = [(0, 5), (2, 7), (2, 9)]"

definition threeEvaluations :: "TestCaseEvaluation list" where
  "threeEvaluations =
     [failedEvaluation greeting NonError 5,
      failedEvaluation lonely (Error tooFewBlocks) 0,
      \<lparr> testCaseId = ''greeting'', success = True, error = None, score = 1, executionTime = 2,
        response = ''hello'', testCase = greeting \<rparr>]"

text \<open>
  Five test cases, an executor configured with \<^verbatim>\<open>maxConcurrency: 2.5\<close>, and an agent
  whose every call throws.
\<close>

definition fiveCases :: "TestCase list" where
  "fiveCases = [greeting, greeting, greeting, greeting, greeting]"

definition halfExecutor :: EvaluationExecutor where
  "halfExecutor = constructor \<lparr> EvaluationConfig.threshold = None,
                                 EvaluationConfig.maxConcurrency = Some (Number (5 / 2)) \<rparr>"

definition throwingAgent :: agentCalls where
  "throwingAgent g inp = Inl NonError"

text \<open>
  An executor that runs two test cases at a time, one configured with
  \<^verbatim>\<open>maxConcurrency: NaN\<close>, a loader that finds the three test cases, a loader that
  finds them and a file that does not parse, and one run of \<open>evaluateFromDirectory\<close> that
  takes 2 seconds.
\<close>

definition pairExecutor :: EvaluationExecutor where
  "pairExecutor = constructor \<lparr> EvaluationConfig.threshold = None,
                                 EvaluationConfig.maxConcurrency = Some (Number 2) \<rparr>"

definition nanExecutor :: EvaluationExecutor where
  "nanExecutor = constructor \<lparr> EvaluationConfig.threshold = None,
                                EvaluationConfig.maxConcurrency = Some NaN \<rparr>"

definition threeLoader :: "string \<Rightarrow> bool \<Rightarrow> LoadResult" where
  "threeLoader directoryPath stopOnError = \<lparr> testCases = threeCases, errors = [] \<rparr>"

definition faultyLoader :: "string \<Rightarrow> bool \<Rightarrow> LoadResult" where
  "faultyLoader directoryPath stopOnError =
     \<lparr> testCases = threeCases,
       errors = [\<lparr> filePath = ''cases/broken.txt'', message = ''Tool args must be valid JSON'' \<rparr>] \<rparr>"

definition oneRun :: environment where
  "oneRun = \<lparr> startTime = 0, loadedTime = 0, settled = settlements, endTime = 2000, today = 0 \<rparr>"

text \<open>
  Transcripts of the tests of the tokenizer and the parser, a stand-in for \<^verbatim>\<open>JSON.parse\<close>
  that knows the JSON texts of the examples, and two directories of the loader's tests.
\<close>

definition newline :: string where
  "newline = [CHR 0x0A]"

definition partialRoleTranscript :: string where
  "partialRoleTranscript =
     ''user: Hello'' @ newline @ ''user123: This should not be parsed as a role'' @ newline @
     ''assistant: Hi there''"

definition toolTranscript :: string where
  \<open>toolTranscript =
     ''assistant: ok'' @ newline @ ''tool use: search args: {"q":1}'' @ newline @
     ''tool response: done''\<close>

definition knownJSON :: "string \<Rightarrow> bool" where
  \<open>knownJSON s = (trim s \<in> set [''{"query": "test"}'', ''{"q":1}''])\<close>

definition badArgsTranscript :: string where
  "badArgsTranscript =
     ''assistant: Let me check'' @ newline @ ''tool use: search args: invalid json'' @ newline @
     ''tool response: some response''"

definition argsTestTranscript :: string where
  \<open>argsTestTranscript =
     ''assistant: Let me check'' @ newline @ ''tool use: search args: {"query": "test"}'' @ newline @
     ''tool response: Found results''\<close>

definition strangerTranscript :: string where
  "strangerTranscript = ''nobody: hi'' @ newline @ ''tool use: search args: invalid json''"

definition tab :: string where
  "tab = [CHR 0x09]"

definition windowsTranscript :: string where
  "windowsTranscript =
     ''user: Hello'' @ [CHR 0x0D, CHR 0x0A] @ ''assistant: Hi there'' @ newline @
     ''user: How are you?'' @ [CHR 0x0D, CHR 0x0A]"

definition colonTranscript :: string where
  "colonTranscript =
     ''user: Hello'' @ newline @ ''assistant: :This is a line starting with colon'' @ newline @
     ''user: How are you?''"

definition whitespaceTranscript :: string where
  "whitespaceTranscript =
     ''user: Hello'' @ newline @ tab @ ''assistant: Hi there'' @ newline @
     ''user: '' @ tab @ ''How are you?'' @ newline @ tab @ tab @ ''assistant: I'm good''"

definition blankLinesTranscript :: string where
  "blankLinesTranscript =
     ''user:'' @ newline @ newline @ newline @ ''assistant: Hi there'' @ newline @ newline @
     ''user: ''"

definition tabbedToolTranscript :: string where
  \<open>tabbedToolTranscript =
     ''assistant: Let me check that'' @ newline @
     ''tool use: search'' @ tab @ ''args: {"query": "test"}'' @ newline @
     tab @ tab @ ''tool response: Found results''\<close>

definition txtFile :: "string \<Rightarrow> bool" where
  "txtFile file = (drop (length file - 4) file = ''.txt'')"

definition noEntry :: exn where
  "noEntry = Error ''ENOENT: no such file or directory''"

definition helloTranscript :: string where
  "helloTranscript = ''user: Hello'' @ newline @ ''assistant: Hi there''"

definition fineTranscript :: string where
  "fineTranscript = ''user: How are you?'' @ newline @ ''assistant: Fine''"

definition mixedDirectory :: fileSystem where
  "mixedDirectory =
     \<lparr> readdir = (\<lambda>dir. if dir = ''tmp'' then Inr [''a_valid1.txt'', ''b_invalid.txt'', ''c_valid2.txt'', ''notes.md'']
                        else Inl noEntry),
       readFile = (\<lambda>path.
         if path = ''tmp/a_valid1.txt'' then Inr helloTranscript
         else if path = ''tmp/b_invalid.txt'' then Inr ''invalid: content''
         else if path = ''tmp/c_valid2.txt'' then Inr fineTranscript
         else Inl noEntry) \<rparr>"

definition validDirectory :: fileSystem where
  "validDirectory =
     \<lparr> readdir = (\<lambda>dir. if dir = ''tmp'' then Inr [''test1.txt'', ''test2.txt''] else Inl noEntry),
       readFile = (\<lambda>path.
         if path = ''tmp/test1.txt'' then Inr helloTranscript
         else if path = ''tmp/test2.txt'' then Inr fineTranscript
         else Inl noEntry) \<rparr>"

definition helloCase :: "string \<Rightarrow> TestCase" where
  "helloCase n = \<lparr> id_tc = n, TestCase.name = n,
      messageBlocks = [block USER ''Hello'', block ASSISTANT ''Hi there''] \<rparr>"

definition fineCase :: "string \<Rightarrow> TestCase" where
  "fineCase n = \<lparr> id_tc = n, TestCase.name = n,
      messageBlocks = [block USER ''How are you?'', block ASSISTANT ''Fine''] \<rparr>"

definition invalidContent :: LoadError where
  "invalidContent = \<lparr> filePath = ''tmp/b_invalid.txt'',
      message = ''Invalid role: invalid. Valid roles are: user, assistant, human agent'' \<rparr>"

section \<open>Properties of executeTestCase\<close>

lemma run_executeTestCase_short:
  assumes "length (messageBlocks tc) < 2"
  shows "run clock agent scoring (executeTestCase this tc) w =
           (Inr (failedEvaluation tc (Error tooFewBlocks) 0), w)"
  using assms by (simp add: executeTestCase_def)

lemma run_executeTestCase_agent_throws:
  assumes "\<not> length (messageBlocks tc) < 2" and "agent (agentInput tc) w = (Inl e, w1)"
  shows "run clock agent scoring (executeTestCase this tc) w =
           (Inr (failedEvaluation tc e (clock w1 - clock w)), w1)"
  using assms by (simp add: executeTestCase_def await_agent_def)

lemma run_executeTestCase_scoring_throws:
  assumes "\<not> length (messageBlocks tc) < 2"
    and "agent (agentInput tc) w = (Inr r, w1)"
    and "scoring (trim (AgentOutput.response r)) (trim (MessageBlock.content (expectedResponse tc))) w1 = (Inl e, w2)"
  shows "run clock agent scoring (executeTestCase this tc) w =
           (Inr (failedEvaluation tc e (clock w2 - clock w)), w2)"
  using assms by (simp add: executeTestCase_def await_agent_def await_score_def)

lemma run_executeTestCase_scored:
  assumes "\<not> length (messageBlocks tc) < 2"
    and "agent (agentInput tc) w = (Inr r, w1)"
    and "scoring (trim (AgentOutput.response r)) (trim (MessageBlock.content (expectedResponse tc))) w1 = (Inr s, w2)"
  shows "run clock agent scoring (executeTestCase this tc) w =
           (Inr \<lparr> testCaseId = id_tc tc, success = (s \<ge> EvaluationExecutor.threshold this),
                  error = (if s \<ge> EvaluationExecutor.threshold this then None else Some ''Response mismatch''),
                  score = s, executionTime = clock w1 - clock w,
                  response = AgentOutput.response r, testCase = tc \<rparr>, w2)"
  using assms by (simp add: executeTestCase_def await_agent_def await_score_def Let_def)

lemma expectedResponse_last: "messageBlocks tc \<noteq> [] \<Longrightarrow> expectedResponse tc = last (messageBlocks tc)"
  by (simp add: expectedResponse_def last_conv_nth)

text \<open>
  C1. Whatever the agent and the scoring service do (return or throw, an \<^verbatim>\<open>Error\<close> or
  any other value), \<open>executeTestCase\<close> returns an evaluation (\<open>Inr\<close>) and throws nothing;
  for a test case with fewer than 2 message blocks the evaluation has \<open>success = False\<close>,
  \<open>score = 0\<close> and the error message of the length check.
\<close>

theorem executeTestCase_never_throws:
  "\<exists>ev w'. run clock agent scoring (executeTestCase this tc) w = (Inr ev, w') \<and>
     (length (messageBlocks tc) < 2 \<longrightarrow>
        success ev = False \<and> score ev = 0 \<and>
        error ev = Some ''Test case must have at least 2 message blocks: input and expected output'')"
proof (cases "length (messageBlocks tc) < 2")
  case True
  then show ?thesis
    by (simp add: run_executeTestCase_short failedEvaluation_def tooFewBlocks_def)
next
  case long: False
  obtain r w1 where a: "agent (agentInput tc) w = (r, w1)"
    by (cases "agent (agentInput tc) w")
  show ?thesis
  proof (cases r)
    case (Inl e)
    with long a show ?thesis
      by (simp add: run_executeTestCase_agent_throws)
  next
    case (Inr resp)
    obtain s w2 where b: "scoring (trim (AgentOutput.response resp))
         (trim (MessageBlock.content (expectedResponse tc))) w1 = (s, w2)"
      by (cases "scoring (trim (AgentOutput.response resp))
         (trim (MessageBlock.content (expectedResponse tc))) w1")
    with long a Inr show ?thesis
      by (cases s) (simp_all add: run_executeTestCase_scoring_throws run_executeTestCase_scored)
  qed
qed

text \<open>C1 at the test case of one block.\<close>

theorem executeTestCase_never_throws_witness:
  "length (messageBlocks lonely) < 2 \<and>
   (\<exists>ev w'. run reading helloAgent exactScoring (executeTestCase defaultExecutor lonely) 0 = (Inr ev, w') \<and>
      success ev = False \<and> score ev = 0 \<and>
      error ev = Some ''Test case must have at least 2 message blocks: input and expected output'')"
  using executeTestCase_never_throws [of reading helloAgent exactScoring defaultExecutor lonely 0]
  by (simp add: lonely_def)

text \<open>
  C3. For a test case of at least 2 message blocks, when the agent call returns \<open>r\<close> and the
  scoring call on the trimmed response and the trimmed content of the last message block
  returns \<open>s\<close>, the evaluation has score \<open>s\<close>, and \<open>success\<close> holds exactly when \<open>s\<close> is at
  least the configured threshold, 0.7 when the configuration gives none.
\<close>

theorem success_iff_score_reaches_threshold:
  assumes "2 \<le> length (messageBlocks tc)"
    and "agent (agentInput tc) w = (Inr r, w1)"
    and "scoring (trim (AgentOutput.response r)) (trim (MessageBlock.content (last (messageBlocks tc)))) w1 = (Inr s, w2)"
  shows "\<exists>ev. run clock agent scoring (executeTestCase (constructor config) tc) w = (Inr ev, w2) \<and>
           score ev = s \<and>
           (success ev \<longleftrightarrow> s \<ge> (case EvaluationConfig.threshold config of None \<Rightarrow> 7 / 10 | Some t \<Rightarrow> t))"
proof -
  from assms(1) have ne: "messageBlocks tc \<noteq> []" and long: "\<not> length (messageBlocks tc) < 2"
    by auto
  from assms(3) have "scoring (trim (AgentOutput.response r)) (trim (MessageBlock.content (expectedResponse tc))) w1 = (Inr s, w2)"
    by (simp add: expectedResponse_last [OF ne])
  then have "run clock agent scoring (executeTestCase (constructor config) tc) w =
           (Inr \<lparr> testCaseId = id_tc tc,
                  success = (s \<ge> EvaluationExecutor.threshold (constructor config)),
                  error = (if s \<ge> EvaluationExecutor.threshold (constructor config) then None
                           else Some ''Response mismatch''),
                  score = s, executionTime = clock w1 - clock w,
                  response = AgentOutput.response r, testCase = tc \<rparr>, w2)"
    using long assms(2) by (rule_tac run_executeTestCase_scored)
  then show ?thesis by (simp add: constructor_def)
qed

text \<open>C3 at \<open>greeting\<close>, with no threshold configured: the score 1 passes.\<close>

theorem success_iff_score_reaches_threshold_witness:
  "2 \<le> length (messageBlocks greeting) \<and>
   helloAgent (agentInput greeting) 0 = (Inr \<lparr> AgentOutput.response = '' hello '' \<rparr>, 5) \<and>
   exactScoring (trim '' hello '') (trim (MessageBlock.content (last (messageBlocks greeting)))) 5 = (Inr 1, 15) \<and>
   (\<exists>ev. run reading helloAgent exactScoring
            (executeTestCase (constructor \<lparr> EvaluationConfig.threshold = None, EvaluationConfig.maxConcurrency = None \<rparr>) greeting) 0 = (Inr ev, 15) \<and>
          score ev = 1 \<and> success ev)"
proof -
  have 1: "2 \<le> length (messageBlocks greeting)" by (simp add: greeting_def)
  have 2: "helloAgent (agentInput greeting) 0 = (Inr \<lparr> AgentOutput.response = '' hello '' \<rparr>, 5)"
    by (simp add: helloAgent_def)
  have 3: "exactScoring (trim (AgentOutput.response \<lparr> AgentOutput.response = '' hello '' \<rparr>)) (trim (MessageBlock.content (last (messageBlocks greeting)))) 5 = (Inr 1, 15)"
    by (simp add: exactScoring_def greeting_def block_def trim_def trimStart_def trimEnd_def isWhiteSpace_def)
  from success_iff_score_reaches_threshold
      [where tc = greeting and agent = helloAgent and scoring = exactScoring and w = 0
         and r = "\<lparr> AgentOutput.response = '' hello '' \<rparr>" and ?w1.0 = 5 and s = 1 and ?w2.0 = 15
         and clock = reading
         and config = "\<lparr> EvaluationConfig.threshold = None, EvaluationConfig.maxConcurrency = None \<rparr>"]
    1 2 3
  show ?thesis by simp
qed

text \<open>
  C4 as stated fails: the agent answers at 5 ms and the scoring call returns at 15 ms, and the
  evaluation's \<open>executionTime\<close> is 5, not the 15 ms that both calls took.
\<close>

theorem executionTime_after_both_calls_counterexample:
  "run reading helloAgent exactScoring (executeTestCase defaultExecutor greeting) 0 = (Inr greetingEvaluation, 15) \<and>
   executionTime greetingEvaluation \<noteq> 15 - 0"
proof -
  have 1: "\<not> length (messageBlocks greeting) < 2" by (simp add: greeting_def)
  have 2: "helloAgent (agentInput greeting) 0 = (Inr \<lparr> AgentOutput.response = '' hello '' \<rparr>, 5)"
    by (simp add: helloAgent_def)
  have 3: "exactScoring (trim (AgentOutput.response \<lparr> AgentOutput.response = '' hello '' \<rparr>)) (trim (MessageBlock.content (expectedResponse greeting))) 5 = (Inr 1, 15)"
    by (simp add: exactScoring_def expectedResponse_def greeting_def block_def trim_def trimStart_def trimEnd_def isWhiteSpace_def)
  from run_executeTestCase_scored
      [where tc = greeting and agent = helloAgent and scoring = exactScoring and w = 0
         and r = "\<lparr> AgentOutput.response = '' hello '' \<rparr>" and ?w1.0 = 5 and s = 1 and ?w2.0 = 15
         and clock = reading and this = defaultExecutor] 1 2 3
  show ?thesis
    by (simp add: greetingEvaluation_def defaultExecutor_def constructor_def reading_def greeting_def)
qed

text \<open>
  C4, amended. \<open>executionTime\<close> is the clock reading taken when the agent call has returned,
  before the scoring call is issued, minus the reading at entry, when both calls succeed.
  When the agent call or the scoring call throws it is the reading taken in the handler,
  after the call that threw, minus the reading at entry; for a test case with fewer than 2
  message blocks no call is made and no time passes.
\<close>

theorem executionTime_measures:
  "\<exists>ev w'. run clock agent scoring (executeTestCase this tc) w = (Inr ev, w') \<and>
     executionTime ev =
       (if length (messageBlocks tc) < 2 then 0
        else case agent (agentInput tc) w of
               (Inl e, w1) \<Rightarrow> clock w1 - clock w
             | (Inr r, w1) \<Rightarrow>
                 (case scoring (trim (AgentOutput.response r)) (trim (MessageBlock.content (expectedResponse tc))) w1 of
                    (Inl e, w2) \<Rightarrow> clock w2 - clock w
                  | (Inr s, w2) \<Rightarrow> clock w1 - clock w))"
proof (cases "length (messageBlocks tc) < 2")
  case True
  then show ?thesis
    by (simp add: run_executeTestCase_short failedEvaluation_def)
next
  case long: False
  obtain r w1 where a: "agent (agentInput tc) w = (r, w1)"
    by (cases "agent (agentInput tc) w")
  show ?thesis
  proof (cases r)
    case (Inl e)
    with long a show ?thesis
      by (simp add: run_executeTestCase_agent_throws failedEvaluation_def)
  next
    case (Inr resp)
    obtain s w2 where b: "scoring (trim (AgentOutput.response resp))
         (trim (MessageBlock.content (expectedResponse tc))) w1 = (s, w2)"
      by (cases "scoring (trim (AgentOutput.response resp))
         (trim (MessageBlock.content (expectedResponse tc))) w1")
    with long a Inr show ?thesis
      by (cases s) (simp_all add: run_executeTestCase_scoring_throws run_executeTestCase_scored failedEvaluation_def)
  qed
qed

text \<open>C4, amended, at \<open>greeting\<close>: 5 ms for the agent call, while the run ends at 15 ms.\<close>

theorem executionTime_measures_witness:
  "\<exists>ev w'. run reading helloAgent exactScoring (executeTestCase defaultExecutor greeting) 0 = (Inr ev, w') \<and>
     executionTime ev = 5 \<and> w' = 15"
proof -
  have "trim '' hello '' = trim ''hello''"
    by (simp add: trim_def trimStart_def trimEnd_def isWhiteSpace_def)
  then have "run reading helloAgent exactScoring (executeTestCase defaultExecutor greeting) 0 =
          (Inr greetingEvaluation, 15)"
    by (simp add: executeTestCase_def await_agent_def await_score_def agentInput_def
        expectedResponse_def greeting_def block_def helloAgent_def exactScoring_def reading_def
        greetingEvaluation_def defaultExecutor_def constructor_def)
  with executionTime_measures [of reading helloAgent exactScoring defaultExecutor greeting 0]
  show ?thesis
    by (simp add: greetingEvaluation_def)
qed

section \<open>Properties of executeTestCasesInParallel\<close>

subsection \<open>Tasks\<close>

lemma settles_to_advance: "settles_to ag sc P p \<Longrightarrow> settles_to ag sc P (advance t p)"
  by (induction p) auto

lemma settles_to_resume: "settles_to ag sc P p \<Longrightarrow> settles_to ag sc P (resume ag sc t p)"
  by (cases "(ag, sc, t, p)" rule: resume.cases) (auto intro: settles_to_advance)

lemma chunkPromise_fulfils:
  "settles_to ag sc (fulfils this ag sc tc) (chunkPromise this tc)"
proof (cases "length (messageBlocks tc) < 2")
  case True
  then show ?thesis
    by (simp add: chunkPromise_def executeTestCase_def executeTestCaseAlone_def fulfils_def
        untimed_def failedEvaluation_def)
next
  case long: False
  show ?thesis
  proof (cases "ag (agentInput tc)")
    case (Inl e)
    with long show ?thesis
      by (simp add: chunkPromise_def executeTestCase_def executeTestCaseAlone_def fulfils_def
          untimed_def failedEvaluation_def await_agent_def)
  next
    case (Inr r)
    with long show ?thesis
      by (cases "sc (trim (AgentOutput.response r)) (trim (MessageBlock.content (expectedResponse tc)))")
         (simp_all add: chunkPromise_def executeTestCase_def executeTestCaseAlone_def fulfils_def
          untimed_def failedEvaluation_def await_agent_def await_score_def Let_def)
  qed
qed

lemma executeTestCaseAlone_testCase:
  "\<exists>ev. executeTestCaseAlone this ag sc tc = Inr ev \<and> testCase ev = tc \<and> testCaseId ev = id_tc tc"
proof (cases "length (messageBlocks tc) < 2")
  case True
  then show ?thesis
    by (simp add: executeTestCaseAlone_def executeTestCase_def failedEvaluation_def)
next
  case long: False
  show ?thesis
  proof (cases "ag (agentInput tc)")
    case (Inl e)
    with long show ?thesis
      by (simp add: executeTestCaseAlone_def executeTestCase_def failedEvaluation_def await_agent_def)
  next
    case (Inr r)
    with long show ?thesis
      by (cases "sc (trim (AgentOutput.response r)) (trim (MessageBlock.content (expectedResponse tc)))")
         (simp_all add: executeTestCaseAlone_def executeTestCase_def failedEvaluation_def
            await_agent_def await_score_def Let_def)
  qed
qed






lemma suspended_advance: "suspended (advance t p)"
  by (induction p) auto


subsection \<open>The first loop\<close>

lemma slice_whole: "slice (Number (real a)) (Number (real b)) xs = drop a (take b xs)"
proof -
  have "drop (min a (length xs)) (take (min b (length xs)) xs) = drop a (take b xs)"
    by (cases "a \<le> length xs"; cases "b \<le> length xs") (simp_all add: min_def)
  then show ?thesis
    by (simp add: slice_def truncated_def)
qed

lemma slice_append_drop: "drop i (take (i + k) xs) @ drop (i + k) xs = drop i xs"
proof -
  have "drop i (take (i + k) xs) = take k (drop i xs)"
    by (simp add: drop_take)
  moreover have "drop (i + k) xs = drop k (drop i xs)"
    by (simp add: add.commute)
  ultimately show ?thesis by (simp only: append_take_drop_id)
qed

lemma chunksLoop_whole_step:
  "chunksLoop tcs (Number (real k)) (Number (real i)) acc =
     (if i < length tcs
      then chunksLoop tcs (Number (real k)) (Number (real (i + k))) (acc @ [drop i (take (i + k) tcs)])
      else Some acc)"
proof -
  have a: "numberAdd (Number (real i)) (Number (real k)) = Number (real (i + k))"
    by simp
  have b: "belowLength (Number (real i)) (length tcs) = (i < length tcs)"
    by simp
  show ?thesis
    by (subst chunksLoop.simps) (simp only: a b slice_whole)
qed

lemma chunksLoop_whole:
  assumes "0 < k"
  shows "\<exists>r. chunksLoop tcs (Number (real k)) (Number (real i)) acc = Some (acc @ r) \<and>
             concat r = drop i tcs \<and>
             (\<forall>c\<in>set r. 1 \<le> length c \<and> length c \<le> k) \<and>
             (\<forall>c\<in>set (butlast r). length c = k)"
proof (induction "length tcs - i" arbitrary: i acc rule: less_induct)
  case less
  show ?case
  proof (cases "i < length tcs")
    case False
    then have "chunksLoop tcs (Number (real k)) (Number (real i)) acc = Some (acc @ [])"
      by (subst chunksLoop_whole_step) simp
    moreover from False have "concat [] = drop i tcs" by simp
    ultimately show ?thesis by (intro exI [of _ "[]"]) simp
  next
    case True
    define s where "s = drop i (take (i + k) tcs)"
    from True assms have "length tcs - (i + k) < length tcs - i" by simp
    from less [OF this, of "acc @ [s]"]
    obtain r where r: "chunksLoop tcs (Number (real k)) (Number (real (i + k))) (acc @ [s]) = Some ((acc @ [s]) @ r)"
      and cat: "concat r = drop (i + k) tcs"
      and len: "\<forall>c\<in>set r. 1 \<le> length c \<and> length c \<le> k"
      and full: "\<forall>c\<in>set (butlast r). length c = k"
      by blast
    have ls: "length s = min k (length tcs - i)"
      unfolding s_def by (auto simp add: min_def)
    have s: "1 \<le> length s \<and> length s \<le> k"
      using True assms by (simp only: ls) simp
    have "length s = k" if "r \<noteq> []"
    proof -
      from that len cat have "drop (i + k) tcs \<noteq> []"
        by (cases r) auto
      then have "i + k < length tcs" by simp
      then show ?thesis by (simp only: ls)
    qed
    then have full': "\<forall>c\<in>set (butlast (s # r)). length c = k"
      using full by auto
    have "chunksLoop tcs (Number (real k)) (Number (real i)) acc = Some ((acc @ [s]) @ r)"
      using True by (subst chunksLoop_whole_step) (simp only: r if_True s_def [symmetric])
    then have "chunksLoop tcs (Number (real k)) (Number (real i)) acc = Some (acc @ (s # r))"
      by simp
    moreover have "concat (s # r) = drop i tcs"
      using cat by (simp only: concat.simps slice_append_drop s_def)
    ultimately show ?thesis
      using s len full' by (intro exI [of _ "s # r"]) simp
  qed
qed

lemma length_concat_take: "length (concat (take n chunks)) \<le> length (concat chunks)"
proof -
  have "concat chunks = concat (take n chunks) @ concat (drop n chunks)"
    by (simp only: concat_append [symmetric] append_take_drop_id)
  then show ?thesis by simp
qed

lemma nth_concat_chunk:
  assumes "n < length chunks" and "j < length (chunks ! n)"
  shows "concat chunks ! (length (concat (take n chunks)) + j) = chunks ! n ! j"
proof -
  have "concat chunks = concat (take n chunks @ chunks ! n # drop (Suc n) chunks)"
    by (rule arg_cong [where f = concat]) (rule id_take_nth_drop [OF assms(1)])
  also have "\<dots> = concat (take n chunks) @ chunks ! n @ concat (drop (Suc n) chunks)"
    by simp
  finally have "concat chunks = concat (take n chunks) @ chunks ! n @ concat (drop (Suc n) chunks)" .
  then show ?thesis
    using assms(2) by (simp only: nth_append) simp
qed

lemma take_expected:
  assumes "off + len \<le> length tcs"
  shows "take off (expectedResults this agent scoring tcs) @
         map (\<lambda>g. executeTestCaseAlone this (agent g) (scoring g) (tcs ! g)) [off..<off + len] =
         take (off + len) (expectedResults this agent scoring tcs)"
proof -
  let ?f = "\<lambda>g. executeTestCaseAlone this (agent g) (scoring g) (tcs ! g)"
  have 1: "take off (map ?f [0..<length tcs]) = map ?f [0..<off]"
    using assms by (simp only: take_map) simp
  have 2: "take (off + len) (map ?f [0..<length tcs]) = map ?f [0..<off + len]"
    using assms by (simp only: take_map) simp
  have 3: "map ?f [0..<off + len] = map ?f [0..<off] @ map ?f [off..<off + len]"
    by (simp only: upt_add_eq_append [OF le0] map_append)
  show ?thesis
    unfolding expectedResults_def by (simp only: 1 2 3)
qed

lemma threeCases_chunks:
  "chunksLoop threeCases (Number 2) (Number 0) [] = Some [[greeting, lonely], [greeting]]"
  by (simp add: chunksLoop.simps slice_def truncated_def threeCases_def)

lemma fiveCases_chunks:
  "chunksLoop fiveCases (Number (5 / 2)) (Number 0) [] =
     Some [[greeting, greeting], [greeting, greeting, greeting]]"
  by (simp add: chunksLoop.simps slice_def truncated_def fiveCases_def)

subsection \<open>Promise.all\<close>

lemma promise_all_not_rejected:
  "list_all2 (\<lambda>p g. promised this (agent g) (scoring g) (tcs ! g) p) ps gs \<Longrightarrow>
   promise_all ps \<noteq> Some (Inl e)"
proof (induction ps gs rule: list_all2_induct)
  case Nil
  show ?case by simp
next
  case (Cons p ps g gs)
  show ?case
  proof (cases p)
    case (Done x)
    with Cons show ?thesis
      by (cases x) (auto simp: promised_def fulfils_def split: option.splits sum.splits)
  qed (use Cons in \<open>auto split: option.splits sum.splits\<close>)
qed

lemma promise_all_fulfilled:
  "list_all2 (\<lambda>p g. promised this (agent g) (scoring g) (tcs ! g) p) ps gs \<Longrightarrow>
   promise_all ps = Some (Inr vs) \<Longrightarrow>
   map (\<lambda>ev. Inr (untimed ev)) vs =
     map (\<lambda>g. executeTestCaseAlone this (agent g) (scoring g) (tcs ! g)) gs"
proof (induction ps gs arbitrary: vs rule: list_all2_induct)
  case Nil
  then show ?case by simp
next
  case (Cons p ps g gs)
  show ?case
  proof (cases p)
    case (Done x)
    with Cons show ?thesis
      by (cases x) (auto simp: promised_def fulfils_def split: option.splits sum.splits)
  qed (use Cons in \<open>auto split: option.splits sum.splits\<close>)
qed



lemma promised_advance_chunkPromise: "promised this ag sc tc (advance t (chunkPromise this tc))"
  by (simp add: promised_def settles_to_advance chunkPromise_fulfils suspended_advance)

lemma promised_resume: "promised this ag sc tc p \<Longrightarrow> promised this ag sc tc (resume ag sc t p)"
  by (cases "(ag, sc, t, p)" rule: resume.cases)
     (auto simp add: promised_def intro: settles_to_advance suspended_advance)

lemma promised_chunk:
  assumes cat: "concat chunks = tcs" and n: "n < length chunks"
  shows "list_all2 (\<lambda>p g. promised this (agent g) (scoring g) (tcs ! g) p)
           (map (\<lambda>testCase. advance t (chunkPromise this testCase)) (chunks ! n))
           [length (concat (take n chunks))..<length (concat (take n chunks)) + length (chunks ! n)]"
proof (rule list_all2_all_nthI)
  show "length (map (\<lambda>testCase. advance t (chunkPromise this testCase)) (chunks ! n)) =
        length [length (concat (take n chunks))..<length (concat (take n chunks)) + length (chunks ! n)]"
    by simp
next
  fix j
  assume "j < length (map (\<lambda>testCase. advance t (chunkPromise this testCase)) (chunks ! n))"
  then have j: "j < length (chunks ! n)" by simp
  let ?g = "length (concat (take n chunks)) + j"
  have "tcs ! ?g = chunks ! n ! j"
    using nth_concat_chunk [OF n j] cat by simp
  then have "promised this (agent ?g) (scoring ?g) (tcs ! ?g) (advance t (chunkPromise this (chunks ! n ! j)))"
    by (simp only: promised_advance_chunkPromise)
  with j show "promised this
          (agent ([length (concat (take n chunks))..<length (concat (take n chunks)) + length (chunks ! n)] ! j))
          (scoring ([length (concat (take n chunks))..<length (concat (take n chunks)) + length (chunks ! n)] ! j))
          (tcs ! ([length (concat (take n chunks))..<length (concat (take n chunks)) + length (chunks ! n)] ! j))
          (map (\<lambda>testCase. advance t (chunkPromise this testCase)) (chunks ! n) ! j)"
    by simp
qed

subsection \<open>The second loop keeps the order\<close>

lemma length_results:
  assumes "map (\<lambda>ev. Inr (untimed ev)) res =
             take (length (concat (take n chunks))) (expectedResults this agent scoring (concat chunks))"
  shows "length res = length (concat (take n chunks))"
proof -
  have "length (map (\<lambda>ev. (Inr (untimed ev) :: exn + TestCaseEvaluation)) res) =
        length (take (length (concat (take n chunks))) (expectedResults this agent scoring (concat chunks)))"
    by (simp only: assms)
  then show ?thesis
    using length_concat_take [of n chunks] by (simp add: expectedResults_def)
qed

lemma forChunks_in_order:
  assumes "n \<le> length chunks"
    and "map (\<lambda>ev. Inr (untimed ev)) res =
           take (length (concat (take n chunks))) (expectedResults this agent scoring (concat chunks))"
  shows "in_order this agent scoring (concat chunks) chunks (forChunks this t res (drop n chunks))"
  using assms
proof (induction "length chunks - n" arbitrary: n res)
  case 0
  then show ?case by (simp add: in_order_def expectedResults_def)
next
  case (Suc m)
  then have n: "n < length chunks" by simp
  define c where "c = chunks ! n"
  define off where "off = length (concat (take n chunks))"
  define ps where "ps = map (\<lambda>testCase. advance t (chunkPromise this testCase)) c"
  have dr: "drop n chunks = c # drop (Suc n) chunks"
    using n by (simp add: Cons_nth_drop_Suc c_def)
  have tk: "take (Suc n) chunks = take n chunks @ [c]"
    using n by (simp add: take_Suc_conv_app_nth c_def)
  have lres: "length res = off"
    unfolding off_def using Suc.prems(2) by (rule length_results)
  have pr: "list_all2 (\<lambda>p g. promised this (agent g) (scoring g) (concat chunks ! g) p) ps [off..<off + length c]"
    unfolding ps_def c_def off_def using refl n by (rule promised_chunk)
  have step: "forChunks this t res (drop n chunks) =
     (case promise_all ps of
           Some (Inl e) \<Rightarrow> Rejected e
         | Some (Inr chunkResults) \<Rightarrow> forChunks this t (res @ chunkResults) (drop (Suc n) chunks)
         | None \<Rightarrow> Running \<lparr> results = res, chunk = c, chunkPromises = ps, remaining = drop (Suc n) chunks \<rparr>)"
    by (simp only: dr forChunks.simps ps_def Let_def)
  show ?case
  proof (cases "promise_all ps")
    case None
    have "in_order this agent scoring (concat chunks) chunks
            (Running \<lparr> results = res, chunk = c, chunkPromises = ps, remaining = drop (Suc n) chunks \<rparr>)"
      unfolding in_order_def using n Suc.prems(2) pr None lres
      by (auto simp add: c_def off_def intro!: exI [of _ n])
    with None step show ?thesis by simp
  next
    case (Some r)
    show ?thesis
    proof (cases r)
      case (Inl e)
      with Some promise_all_not_rejected [OF pr] show ?thesis by simp
    next
      case (Inr vs)
      from promise_all_fulfilled [OF pr] Some Inr
      have vs: "map (\<lambda>ev. Inr (untimed ev)) vs =
          map (\<lambda>g. executeTestCaseAlone this (agent g) (scoring g) (concat chunks ! g)) [off..<off + length c]"
        by simp
      have "length (concat (take (Suc n) chunks)) = off + length c"
        by (simp add: tk off_def)
      moreover have "off + length c \<le> length (concat chunks)"
        using length_concat_take [of "Suc n" chunks] calculation by simp
      ultimately have "map (\<lambda>ev. Inr (untimed ev)) (res @ vs) =
          take (length (concat (take (Suc n) chunks))) (expectedResults this agent scoring (concat chunks))"
        using take_expected [of off "length c" "concat chunks" this agent scoring] Suc.prems(2) vs
        by (simp add: off_def)
      moreover have "m = length chunks - Suc n" using Suc.hyps(2) by simp
      moreover have "Suc n \<le> length chunks" using n by simp
      ultimately have "in_order this agent scoring (concat chunks) chunks
          (forChunks this t (res @ vs) (drop (Suc n) chunks))"
        by (intro Suc.hyps(1))
      with Some Inr step show ?thesis by simp
    qed
  qed
qed

lemma deliver_in_order:
  assumes "in_order this agent scoring (concat chunks) chunks b"
  shows "in_order this agent scoring (concat chunks) chunks (deliver this agent scoring ev b)"
proof (cases b)
  case (Running st)
  obtain g t where ev: "ev = (g, t)" by (cases ev)
  define off where "off = length (results st)"
  from assms Running obtain n where n: "n < length chunks"
    and res: "map (\<lambda>ev. Inr (untimed ev)) (results st) =
               take (length (concat (take n chunks))) (expectedResults this agent scoring (concat chunks))"
    and ch: "chunk st = chunks ! n" and rem: "remaining st = drop (Suc n) chunks"
    and pr: "list_all2 (\<lambda>p g. promised this (agent g) (scoring g) (concat chunks ! g) p) (chunkPromises st)
               [off..<off + length (chunk st)]"
    and pe: "promise_all (chunkPromises st) = None"
    by (auto simp add: in_order_def off_def)
  have len: "length (chunkPromises st) = length (chunk st)"
    using list_all2_lengthD [OF pr] by simp
  have lres: "off = length (concat (take n chunks))"
    unfolding off_def using res by (rule length_results)
  show ?thesis
  proof (cases "off \<le> g \<and> g < off + length (chunkPromises st)")
    case False
    then have "deliver this agent scoring ev b = b"
      unfolding Running ev off_def by (auto simp add: Let_def)
    with assms show ?thesis by simp
  next
    case True
    define j where "j = g - off"
    from True have j: "j < length (chunkPromises st)" and g: "g = off + j"
      by (auto simp add: j_def)
    define ps where "ps = (chunkPromises st)[j := resume (agent g) (scoring g) t (chunkPromises st ! j)]"
    have "promised this (agent g) (scoring g) (concat chunks ! g) (chunkPromises st ! j)"
      using list_all2_nthD [OF pr j] j len by (simp add: g)
    then have "promised this (agent g) (scoring g) (concat chunks ! g)
                 (resume (agent g) (scoring g) t (chunkPromises st ! j))"
      by (rule promised_resume)
    moreover have "[off..<off + length (chunk st)] ! j = g"
      using j len by (simp add: g)
    ultimately have "promised this (agent ([off..<off + length (chunk st)] ! j))
        (scoring ([off..<off + length (chunk st)] ! j))
        (concat chunks ! ([off..<off + length (chunk st)] ! j))
        (resume (agent g) (scoring g) t (chunkPromises st ! j))"
      by simp
    with pr have "list_all2 (\<lambda>p g. promised this (agent g) (scoring g) (concat chunks ! g) p) ps
        ([off..<off + length (chunk st)][j := [off..<off + length (chunk st)] ! j])"
      unfolding ps_def by (rule list_all2_update_cong)
    then have pr': "list_all2 (\<lambda>p g. promised this (agent g) (scoring g) (concat chunks ! g) p) ps
        [off..<off + length (chunk st)]"
      by (simp only: list_update_id)
    have step: "deliver this agent scoring ev b =
       (case promise_all ps of
           Some (Inl e) \<Rightarrow> Rejected e
         | Some (Inr chunkResults) \<Rightarrow> forChunks this t (results st @ chunkResults) (remaining st)
         | None \<Rightarrow> Running (st\<lparr> chunkPromises := ps \<rparr>))"
      using True unfolding Running ev ps_def j_def off_def by (auto simp add: Let_def)
    have tk: "take (Suc n) chunks = take n chunks @ [chunks ! n]"
      using n by (simp add: take_Suc_conv_app_nth)
    show ?thesis
    proof (cases "promise_all ps")
      case None
      have "in_order this agent scoring (concat chunks) chunks (Running (st\<lparr> chunkPromises := ps \<rparr>))"
        unfolding in_order_def using n res ch rem pr' None
        by (auto simp add: off_def intro!: exI [of _ n])
      with None step show ?thesis by simp
    next
      case (Some r)
      show ?thesis
      proof (cases r)
        case (Inl e)
        with Some promise_all_not_rejected [OF pr'] show ?thesis by simp
      next
        case (Inr vs)
        from promise_all_fulfilled [OF pr'] Some Inr
        have vs: "map (\<lambda>ev. Inr (untimed ev)) vs =
            map (\<lambda>g. executeTestCaseAlone this (agent g) (scoring g) (concat chunks ! g))
              [off..<off + length (chunk st)]"
          by simp
        have "length (concat (take (Suc n) chunks)) = off + length (chunk st)"
          by (simp add: tk lres ch)
        moreover have "off + length (chunk st) \<le> length (concat chunks)"
          using length_concat_take [of "Suc n" chunks] calculation by simp
        ultimately have "map (\<lambda>ev. Inr (untimed ev)) (results st @ vs) =
            take (length (concat (take (Suc n) chunks))) (expectedResults this agent scoring (concat chunks))"
          using take_expected [of off "length (chunk st)" "concat chunks" this agent scoring] res vs
          by (simp add: lres)
        moreover have "Suc n \<le> length chunks" using n by simp
        ultimately have "in_order this agent scoring (concat chunks) chunks
            (forChunks this t (results st @ vs) (drop (Suc n) chunks))"
          by (intro forChunks_in_order)
        with Some Inr step rem show ?thesis by simp
      qed
    qed
  qed
next
  case (Returned rs)
  with assms show ?thesis by (cases ev) simp
next
  case (Rejected e)
  with assms show ?thesis by (simp add: in_order_def)
qed

lemma deliverAll_in_order:
  "in_order this agent scoring (concat chunks) chunks b \<Longrightarrow>
   in_order this agent scoring (concat chunks) chunks (deliverAll this agent scoring evs b)"
  unfolding deliverAll_def
  by (induction evs arbitrary: b) (simp_all add: deliver_in_order)

lemma start_in_order:
  "in_order this agent scoring (concat chunks) chunks (forChunks this t [] chunks)"
  using forChunks_in_order [of 0 chunks "[]" this agent scoring t] by simp


lemma expected_testCases:
  assumes "map (\<lambda>ev. Inr (untimed ev)) rs = expectedResults this agent scoring tcs"
  shows "length rs = length tcs \<and> map testCase rs = tcs \<and> map testCaseId rs = map id_tc tcs"
proof -
  have "length (map (\<lambda>ev. (Inr (untimed ev) :: exn + TestCaseEvaluation)) rs) =
        length (expectedResults this agent scoring tcs)"
    by (simp only: assms)
  then have len: "length rs = length tcs" by (simp add: expectedResults_def)
  have each: "testCase (rs ! g) = tcs ! g \<and> testCaseId (rs ! g) = id_tc (tcs ! g)" if g: "g < length tcs" for g
  proof -
    have "map (\<lambda>ev. (Inr (untimed ev) :: exn + TestCaseEvaluation)) rs ! g =
          expectedResults this agent scoring tcs ! g"
      by (simp only: assms)
    with g len have eq: "executeTestCaseAlone this (agent g) (scoring g) (tcs ! g) = Inr (untimed (rs ! g))"
      by (simp add: expectedResults_def)
    from executeTestCaseAlone_testCase [of this "agent g" "scoring g" "tcs ! g"]
    obtain ev where "executeTestCaseAlone this (agent g) (scoring g) (tcs ! g) = Inr ev"
      and "testCase ev = tcs ! g" and "testCaseId ev = id_tc (tcs ! g)" by blast
    with eq show ?thesis by (auto simp add: untimed_def)
  qed
  have "map testCase rs = tcs"
    using len each by (intro nth_equalityI) simp_all
  moreover have "map testCaseId rs = map id_tc tcs"
    using len each by (intro nth_equalityI) simp_all
  ultimately show ?thesis using len by simp
qed

subsection \<open>The batch returns when the calls settle\<close>








subsection \<open>Chunks, order and concurrency\<close>





text \<open>
  For a \<^verbatim>\<open>maxConcurrency\<close> that is a whole number \<open>k \<ge> 1\<close> the call starts and, at every
  point of the batch, for every sequence of settlements, at most \<open>k\<close> promises await the agent.
\<close>

lemma in_flight_whole:
  assumes "1 \<le> k"
  shows "\<exists>b. executeTestCasesInParallel this tcs (Number (real k)) t = Some b \<and>
             (\<forall>agent scoring evs. inFlight (deliverAll this agent scoring evs b) \<le> k)"
proof -
  from assms have "0 < k" by simp
  from chunksLoop_whole [OF this, of tcs 0 "[]"]
  obtain chunks where loop: "chunksLoop tcs (Number (real k)) (Number 0) [] = Some chunks"
    and cat: "concat chunks = tcs"
    and len: "\<forall>c\<in>set chunks. 1 \<le> length c \<and> length c \<le> k"
    by auto
  define b where "b = forChunks this t [] chunks"
  have b: "executeTestCasesInParallel this tcs (Number (real k)) t = Some b"
    by (simp add: executeTestCasesInParallel_def loop b_def)
  have "inFlight (deliverAll this agent scoring evs b) \<le> k" for agent scoring evs
  proof (cases "deliverAll this agent scoring evs b")
    case (Running st)
    have "in_order this agent scoring (concat chunks) chunks (deliverAll this agent scoring evs b)"
      unfolding b_def by (intro deliverAll_in_order start_in_order)
    with Running obtain n where n: "n < length chunks" and ch: "chunk st = chunks ! n"
      and pr: "list_all2 (\<lambda>p g. promised this (agent g) (scoring g) (concat chunks ! g) p) (chunkPromises st)
               [length (results st)..<length (results st) + length (chunk st)]"
      by (auto simp add: in_order_def)
    from pr have "length (chunkPromises st) = length (chunk st)"
      using list_all2_lengthD by fastforce
    also have "\<dots> \<le> k" using len n ch by simp
    finally have "length (chunkPromises st) \<le> k" .
    with length_filter_le [of awaitsAgent "chunkPromises st"]
    have "length (filter awaitsAgent (chunkPromises st)) \<le> k"
      by (rule le_trans)
    with Running show ?thesis by simp
  qed simp_all
  with b show ?thesis by blast
qed

text \<open>
  C9. The docstring of \<^verbatim>\<open>executeTestCasesInParallel\<close> calls \<^verbatim>\<open>maxConcurrency\<close> the
  "maximum number of concurrent executions", and nothing checks that it is a whole number.
  With \<^verbatim>\<open>maxConcurrency = 2.5\<close> and five test cases the second chunk is
  \<^verbatim>\<open>slice(2.5, 5)\<close>, three test cases: once the two agent calls of the first chunk have
  settled, three agent calls are in flight, more than 2.5.
\<close>

theorem fractional_maxConcurrency_three_in_flight:
  "EvaluationExecutor.maxConcurrency halfExecutor = Number (5 / 2) \<and>
   executeTestCasesInParallel halfExecutor fiveCases (EvaluationExecutor.maxConcurrency halfExecutor) 0 =
     Some (forChunks halfExecutor 0 [] [[greeting, greeting], [greeting, greeting, greeting]]) \<and>
   inFlight (deliverAll halfExecutor throwingAgent exactScores [(0, 1), (1, 2)]
     (forChunks halfExecutor 0 [] [[greeting, greeting], [greeting, greeting, greeting]])) = 3 \<and>
   \<not> real 3 \<le> 5 / 2"
proof -
  have k: "EvaluationExecutor.maxConcurrency halfExecutor = Number (5 / 2)"
    by (simp add: halfExecutor_def constructor_def)
  have "inFlight (deliverAll halfExecutor throwingAgent exactScores [(0, 1), (1, 2)]
     (forChunks halfExecutor 0 [] [[greeting, greeting], [greeting, greeting, greeting]])) = 3"
    by (simp add: deliverAll_def chunkPromise_def executeTestCase_def await_agent_def
        await_score_def Let_def throwingAgent_def greeting_def block_def)
  then show ?thesis
    by (simp add: k executeTestCasesInParallel_def fiveCases_chunks)
qed

section \<open>Properties of evaluateFromDirectory\<close>

lemma resultEntries_passed:
  "resultEntries date rs = Inr entries \<Longrightarrow> map passed entries = map success rs"
proof (induction rs arbitrary: entries)
  case Nil
  then show ?case by simp
next
  case (Cons r rs)
  then show ?case
    by (auto simp add: resultEntry_def Let_def split: sum.splits if_splits)
qed

lemma length_filter_map_eq:
  "map f xs = map g ys \<Longrightarrow> length (filter f xs) = length (filter g ys)"
proof (induction xs arbitrary: ys)
  case Nil
  then show ?case by simp
next
  case (Cons x xs)
  then obtain y ys' where "ys = y # ys'" by (cases ys) auto
  with Cons show ?case by auto
qed

lemma buildReport_counts:
  assumes "buildReport seconds date rs = Inr report"
  shows "passedTests report = int (length (filter success rs)) \<and>
         totalTests report = int (length rs) \<and>
         failedTests report = totalTests report - passedTests report \<and>
         passRate report =
           (if totalTests report > 0
            then real_of_int (passedTests report) / real_of_int (totalTests report) else 0) \<and>
         map passed (EvaluationReport.results report) = map success rs"
  using assms
  by (auto simp add: buildReport_def Let_def resultEntries_passed split: sum.splits)

lemma evaluateFromDirectory_Some:
  assumes "evaluateFromDirectory this agent scoring loader path stop env = Some r"
  shows "\<exists>chunks.
     chunksLoop (testCases (loader path stop)) (EvaluationExecutor.maxConcurrency this) (Number 0) [] = Some chunks \<and>
     (case deliverAll this agent scoring (settled env) (forChunks this (loadedTime env) [] chunks) of
        Running st \<Rightarrow> False
      | Rejected e \<Rightarrow> r = Inl e
      | Returned rs \<Rightarrow> r = buildReport ((endTime env - startTime env) / 1000) (today env) rs)"
  using assms
  by (auto simp add: evaluateFromDirectory_def executeTestCasesInParallel_def Let_def
      split: option.splits batch.splits)

text \<open>
  C5. When \<open>evaluateFromDirectory\<close> returns a report, the batch has returned evaluations
  \<open>rs\<close>, and \<open>passedTests\<close> is the number of evaluations with \<open>success\<close> (which is the number
  of entries of the report with \<open>passed\<close>), \<open>totalTests\<close> is their number,
  \<open>failedTests = totalTests - passedTests\<close>, and \<open>passRate\<close> is \<open>passedTests / totalTests\<close>
  when \<open>totalTests > 0\<close> and 0 otherwise.
\<close>

theorem report_counts:
  assumes "evaluateFromDirectory this agent scoring loader path stop env = Some (Inr report)"
  shows "\<exists>b rs.
     executeTestCasesInParallel this (testCases (loader path stop))
       (EvaluationExecutor.maxConcurrency this) (loadedTime env) = Some b \<and>
     deliverAll this agent scoring (settled env) b = Returned rs \<and>
     passedTests report = int (length (filter success rs)) \<and>
     passedTests report = int (length (filter passed (EvaluationReport.results report))) \<and>
     totalTests report = int (length rs) \<and>
     totalTests report = int (length (EvaluationReport.results report)) \<and>
     failedTests report = totalTests report - passedTests report \<and>
     passRate report =
       (if totalTests report > 0
        then real_of_int (passedTests report) / real_of_int (totalTests report) else 0)"
proof -
  from evaluateFromDirectory_Some [OF assms]
  obtain chunks where loop: "chunksLoop (testCases (loader path stop)) (EvaluationExecutor.maxConcurrency this) (Number 0) [] = Some chunks"
    and res: "case deliverAll this agent scoring (settled env) (forChunks this (loadedTime env) [] chunks) of
        Running st \<Rightarrow> False
      | Rejected e \<Rightarrow> Inr report = Inl e
      | Returned rs \<Rightarrow> Inr report = buildReport ((endTime env - startTime env) / 1000) (today env) rs"
    by blast
  from res obtain rs where run: "deliverAll this agent scoring (settled env) (forChunks this (loadedTime env) [] chunks) = Returned rs"
    and rep: "buildReport ((endTime env - startTime env) / 1000) (today env) rs = Inr report"
    by (cases "deliverAll this agent scoring (settled env) (forChunks this (loadedTime env) [] chunks)") simp_all
  from buildReport_counts [OF rep]
  have counts: "passedTests report = int (length (filter success rs))"
    "totalTests report = int (length rs)"
    "failedTests report = totalTests report - passedTests report"
    "passRate report =
       (if totalTests report > 0
        then real_of_int (passedTests report) / real_of_int (totalTests report) else 0)"
    and same: "map passed (EvaluationReport.results report) = map success rs"
    by simp_all
  from same have "length (filter passed (EvaluationReport.results report)) = length (filter success rs)"
    by (rule length_filter_map_eq)
  moreover from same have "length (EvaluationReport.results report) = length rs"
    by (metis length_map)
  moreover have "executeTestCasesInParallel this (testCases (loader path stop))
       (EvaluationExecutor.maxConcurrency this) (loadedTime env) = Some (forChunks this (loadedTime env) [] chunks)"
    by (simp add: executeTestCasesInParallel_def loop)
  ultimately show ?thesis
    using run counts by auto
qed

lemma oneRun_report:
  "evaluateFromDirectory pairExecutor throwingFirst exactScores threeLoader ''cases'' True oneRun =
     Some (buildReport 2 0 threeEvaluations)"
proof -
  have trims: "trim ''hello'' = ''hello''"
    by (simp add: trim_def trimStart_def trimEnd_def isWhiteSpace_def)
  have "deliverAll pairExecutor throwingFirst exactScores settlements
          (forChunks pairExecutor 0 [] [[greeting, lonely], [greeting]]) = Returned threeEvaluations"
    by (simp add: deliverAll_def settlements_def chunkPromise_def executeTestCase_def
        await_agent_def await_score_def Let_def pairExecutor_def constructor_def
        throwingFirst_def exactScores_def threeEvaluations_def)
       (simp add: greeting_def lonely_def block_def agentInput_def expectedResponse_def trims
          failedEvaluation_def)
  then show ?thesis
    by (simp add: evaluateFromDirectory_def executeTestCasesInParallel_def threeLoader_def
        pairExecutor_def constructor_def threeCases_chunks oneRun_def)
qed

text \<open>C5 at the run of three test cases: one passes, two fail.\<close>

theorem report_counts_witness:
  "\<exists>report. evaluateFromDirectory pairExecutor throwingFirst exactScores threeLoader ''cases'' True oneRun = Some (Inr report) \<and>
     totalTests report = 3 \<and> passedTests report = 1 \<and> failedTests report = 2 \<and>
     passRate report = 1 / 3"
proof -
  obtain report where rep: "evaluateFromDirectory pairExecutor throwingFirst exactScores threeLoader ''cases'' True oneRun = Some (Inr report)"
    and tot: "totalTests report = 3" and pas: "passedTests report = 1"
    by (simp add: oneRun_report buildReport_def resultEntry_def failedEvaluation_def
        threeEvaluations_def greeting_def lonely_def block_def Let_def)
  from report_counts [OF rep] tot pas rep show ?thesis by auto
qed

lemma fold_deliver_Returned: "fold (deliver this agent scoring) evs (Returned rs) = Returned rs"
  by (induction evs) auto

lemma evaluateFromDirectory_no_cases:
  assumes "testCases (loader path stop) = []"
  shows "evaluateFromDirectory this agent scoring loader path stop env = Some (Inr (emptyReport env))"
  using assms
  by (simp add: evaluateFromDirectory_def executeTestCasesInParallel_def chunksLoop.simps
      deliverAll_def buildReport_def emptyReport_def fold_deliver_Returned)

text \<open>
  C10. With \<^verbatim>\<open>maxConcurrency: NaN\<close> the first loop pushes the one chunk
  \<^verbatim>\<open>slice(0, NaN)\<close>, which is empty, and ends, \<^verbatim>\<open>NaN < 3\<close> being false: the loader
  returns three test cases, none is executed, and the report has \<open>totalTests = 0\<close>, not 3.
\<close>

theorem NaN_maxConcurrency_reports_no_test:
  "EvaluationExecutor.maxConcurrency nanExecutor = NaN \<and>
   length (testCases (threeLoader ''cases'' True)) = 3 \<and>
   evaluateFromDirectory nanExecutor throwingFirst exactScores threeLoader ''cases'' True oneRun =
     Some (Inr (emptyReport oneRun)) \<and>
   totalTests (emptyReport oneRun) = 0"
  by (simp add: evaluateFromDirectory_def executeTestCasesInParallel_def chunksLoop.simps
      slice_def nanExecutor_def constructor_def threeLoader_def threeCases_def deliverAll_def
      fold_deliver_Returned buildReport_def emptyReport_def)

text \<open>
  For a \<^verbatim>\<open>maxConcurrency\<close> that is a whole number \<open>k \<ge> 1\<close>, a report that is returned
  counts every test case the loader returned, and two loaders that return the same test cases
  give the same outcome, whatever their errors: the report has no field for them.
\<close>

lemma report_of_loaded_cases:
  assumes "EvaluationExecutor.maxConcurrency this = Number (real k)" and "1 \<le> k"
  shows "(\<forall>report. evaluateFromDirectory this agent scoring loader path stop env = Some (Inr report) \<longrightarrow>
            totalTests report = int (length (testCases (loader path stop)))) \<and>
         (\<forall>loader'. testCases (loader' path stop) = testCases (loader path stop) \<longrightarrow>
            evaluateFromDirectory this agent scoring loader' path stop env =
              evaluateFromDirectory this agent scoring loader path stop env)"
proof (intro conjI allI impI)
  fix report
  assume ret: "evaluateFromDirectory this agent scoring loader path stop env = Some (Inr report)"
  define tcs where "tcs = testCases (loader path stop)"
  from assms(2) have "0 < k" by simp
  from chunksLoop_whole [OF this, of tcs 0 "[]"]
  obtain chunks where loop: "chunksLoop tcs (Number (real k)) (Number 0) [] = Some chunks"
    and cat: "concat chunks = tcs"
    by auto
  from evaluateFromDirectory_Some [OF ret] loop
  have res: "case deliverAll this agent scoring (settled env) (forChunks this (loadedTime env) [] chunks) of
        Running st \<Rightarrow> False
      | Rejected e \<Rightarrow> Inr report = Inl e
      | Returned rs \<Rightarrow> Inr report = buildReport ((endTime env - startTime env) / 1000) (today env) rs"
    by (simp add: tcs_def assms(1))
  then obtain rs where run: "deliverAll this agent scoring (settled env) (forChunks this (loadedTime env) [] chunks) = Returned rs"
    and rep: "buildReport ((endTime env - startTime env) / 1000) (today env) rs = Inr report"
    by (cases "deliverAll this agent scoring (settled env) (forChunks this (loadedTime env) [] chunks)") simp_all
  have "in_order this agent scoring (concat chunks) chunks
          (deliverAll this agent scoring (settled env) (forChunks this (loadedTime env) [] chunks))"
    by (intro deliverAll_in_order start_in_order)
  with run have "map (\<lambda>ev. Inr (untimed ev)) rs = expectedResults this agent scoring tcs"
    by (simp add: in_order_def cat)
  from expected_testCases [OF this] have "length rs = length tcs" by simp
  with buildReport_counts [OF rep] show "totalTests report = int (length (testCases (loader path stop)))"
    by (simp add: tcs_def)
next
  fix loader' :: "string \<Rightarrow> bool \<Rightarrow> LoadResult"
  assume "testCases (loader' path stop) = testCases (loader path stop)"
  then show "evaluateFromDirectory this agent scoring loader' path stop env =
             evaluateFromDirectory this agent scoring loader path stop env"
    by (simp add: evaluateFromDirectory_def)
qed

text \<open>
  At the run of three test cases two at a time: the loader that also reports a file that does
  not parse gives the same report as the loader without errors, with \<open>totalTests = 3\<close>.
\<close>

lemma faulty_load_same_report:
  "errors (faultyLoader ''cases'' True) \<noteq> [] \<and>
   evaluateFromDirectory pairExecutor throwingFirst exactScores faultyLoader ''cases'' True oneRun =
     evaluateFromDirectory pairExecutor throwingFirst exactScores threeLoader ''cases'' True oneRun \<and>
   (\<exists>report.
      evaluateFromDirectory pairExecutor throwingFirst exactScores faultyLoader ''cases'' True oneRun =
        Some (Inr report) \<and>
      totalTests report = 3 \<and> length (EvaluationReport.results report) = 3)"
proof -
  have same: "evaluateFromDirectory pairExecutor throwingFirst exactScores faultyLoader ''cases'' True oneRun =
     evaluateFromDirectory pairExecutor throwingFirst exactScores threeLoader ''cases'' True oneRun"
    by (simp add: evaluateFromDirectory_def faultyLoader_def threeLoader_def)
  have "\<exists>report. buildReport 2 0 threeEvaluations = Inr report \<and> totalTests report = 3 \<and>
          length (EvaluationReport.results report) = 3"
    by (simp add: buildReport_def resultEntry_def failedEvaluation_def
        threeEvaluations_def greeting_def lonely_def block_def Let_def)
  with same show ?thesis
    by (simp add: oneRun_report faultyLoader_def)
qed

section \<open>Properties of the tokenizer\<close>

lemmas tokenizer_defs =
  tokenize_def classify_def labelOf_def afterColon_def dropSpace_def trimStart_def trimEnd_def
  trim_def isWhiteSpace_def roleLabels_def trimContent_def appendLine_def invalidRole_def
  validRolesText_def

subsection \<open>The tests of the tokenizer and the parser\<close>

text \<open>
  The model gives the tokens and blocks that the tests "should handle mixed line endings",
  "should handle lines starting with colons", "should handle unusual whitespace patterns",
  "should handle empty content after role", "should handle multiple consecutive empty lines"
  and "should handle tool usage with unusual whitespace" expect.
\<close>

lemma tokenize_windows:
  "tokenize windowsTranscript =
     Inr [\<lparr> type_tok = T_role, value_tok = ''user'' \<rparr>, \<lparr> type_tok = T_content, value_tok = ''Hello'' \<rparr>,
          \<lparr> type_tok = T_role, value_tok = ''assistant'' \<rparr>, \<lparr> type_tok = T_content, value_tok = ''Hi there'' \<rparr>,
          \<lparr> type_tok = T_role, value_tok = ''user'' \<rparr>, \<lparr> type_tok = T_content, value_tok = ''How are you?'' \<rparr>]"
  by (simp add: windowsTranscript_def newline_def tokenizer_defs)

lemma tokenize_colon:
  "tokenize colonTranscript =
     Inr [\<lparr> type_tok = T_role, value_tok = ''user'' \<rparr>, \<lparr> type_tok = T_content, value_tok = ''Hello'' \<rparr>,
          \<lparr> type_tok = T_role, value_tok = ''assistant'' \<rparr>,
          \<lparr> type_tok = T_content, value_tok = '':This is a line starting with colon'' \<rparr>,
          \<lparr> type_tok = T_role, value_tok = ''user'' \<rparr>, \<lparr> type_tok = T_content, value_tok = ''How are you?'' \<rparr>]"
  by (simp add: colonTranscript_def newline_def tokenizer_defs)

lemma tokenize_whitespace:
  "tokenize whitespaceTranscript =
     Inr [\<lparr> type_tok = T_role, value_tok = ''user'' \<rparr>, \<lparr> type_tok = T_content, value_tok = ''Hello'' \<rparr>,
          \<lparr> type_tok = T_role, value_tok = ''assistant'' \<rparr>, \<lparr> type_tok = T_content, value_tok = ''Hi there'' \<rparr>,
          \<lparr> type_tok = T_role, value_tok = ''user'' \<rparr>, \<lparr> type_tok = T_content, value_tok = ''How are you?'' \<rparr>,
          \<lparr> type_tok = T_role, value_tok = ''assistant'' \<rparr>, \<lparr> type_tok = T_content, value_tok = ''I'm good'' \<rparr>]"
  by (simp add: whitespaceTranscript_def newline_def tab_def tokenizer_defs)

lemma tokenize_blank_lines:
  "tokenize blankLinesTranscript =
     Inr [\<lparr> type_tok = T_role, value_tok = ''user'' \<rparr>, \<lparr> type_tok = T_content, value_tok = [] \<rparr>,
          \<lparr> type_tok = T_role, value_tok = ''assistant'' \<rparr>, \<lparr> type_tok = T_content, value_tok = ''Hi there'' \<rparr>,
          \<lparr> type_tok = T_role, value_tok = ''user'' \<rparr>, \<lparr> type_tok = T_content, value_tok = [] \<rparr>]"
  by (simp add: blankLinesTranscript_def newline_def tokenizer_defs)

lemma tokenize_tabbed_tool:
  \<open>tokenize tabbedToolTranscript =
     Inr [\<lparr> type_tok = T_role, value_tok = ''assistant'' \<rparr>,
          \<lparr> type_tok = T_content, value_tok = ''Let me check that'' \<rparr>,
          \<lparr> type_tok = T_tool_use, value_tok = ''search'' @ tab @ ''args: {"query": "test"}'' \<rparr>,
          \<lparr> type_tok = T_tool_response, value_tok = ''Found results'' \<rparr>]\<close>
  by (simp add: tabbedToolTranscript_def newline_def tab_def tokenizer_defs)

lemma parse_tabbed_tool:
  \<open>parse knownJSON tabbedToolTranscript ''test-case'' =
     Inr \<lparr> id_tc = [], TestCase.name = ''test-case'',
           messageBlocks =
             [\<lparr> MessageBlock.role = ASSISTANT, MessageBlock.content = ''Let me check that'',
                toolUsages = [\<lparr> ToolUsage.name = ''search'', args = ''{"query": "test"}'' \<rparr>],
                toolResponses = [\<lparr> ToolResponse.content = ''Found results'' \<rparr>] \<rparr>] \<rparr>\<close>
  by (simp add: parse_def tokenize_tabbed_tool roleOf_def toolArgsText_def toolName_def tab_def
      knownJSON_def finalize_def dropSpace_def trim_def trimStart_def trimEnd_def isWhiteSpace_def)

subsection \<open>Invalid roles\<close>

lemma classify_InvalidLine: "classify line = InvalidLine lab \<longleftrightarrow> offending line \<and> lab = labelOf line"
  by (auto simp add: classify_def offending_def toolMarkers_def)

lemma tokenizeLines_offending:
  "List.find offending lines = Some first \<Longrightarrow>
   tokenizeLines lines toks = Inl (TokenizeError (invalidRole (labelOf first)))"
proof (induction lines arbitrary: toks)
  case Nil
  then show ?case by simp
next
  case (Cons line lines)
  show ?case
  proof (cases "offending line")
    case True
    with Cons.prems have "first = line" by simp
    moreover from True have "classify line = InvalidLine (labelOf line)"
      by (simp add: classify_InvalidLine)
    ultimately show ?thesis by simp
  next
    case False
    with Cons.prems have find: "List.find offending lines = Some first" by simp
    from False have ok: "\<And>lab. classify line \<noteq> InvalidLine lab"
      by (simp add: classify_InvalidLine)
    show ?thesis
    proof (cases "classify line")
      case (InvalidLine lab)
      with ok show ?thesis by blast
    qed (simp_all add: Cons.IH [OF find])
  
  qed
qed

lemma roles_valid_appendLine: "roles_valid toks \<Longrightarrow> roles_valid (appendLine toks line)"
proof (cases "toks \<noteq> [] \<and> type_tok (last toks) = T_content")
  case True
  assume v: "roles_valid toks"
  from True have "toks = butlast toks @ [last toks]" by simp
  then have "set (butlast toks) \<subseteq> set toks" by (metis set_append Un_upper1)
  with v True show ?thesis
    by (auto simp add: roles_valid_def appendLine_def)
next
  case False
  assume "roles_valid toks"
  with False show ?thesis by (auto simp add: appendLine_def)
qed

lemma classify_RoleLine: "classify line = RoleLine lab rest \<Longrightarrow> lab \<in> set roleLabels"
  by (auto simp add: classify_def split: if_splits)

lemma tokenizeLines_roles_valid:
  "tokenizeLines lines toks = Inr toks' \<Longrightarrow> roles_valid toks \<Longrightarrow> roles_valid toks'"
proof (induction lines arbitrary: toks)
  case Nil
  then show ?case by simp
next
  case (Cons line lines)
  show ?case
  proof (cases "classify line")
    case (RoleLine lab rest)
    with Cons.prems classify_RoleLine [OF RoleLine] show ?thesis
      by (intro Cons.IH [of "toks @ [\<lparr> type_tok = T_role, value_tok = lab \<rparr>, \<lparr> type_tok = T_content, value_tok = rest \<rparr>]"])
         (auto simp add: roles_valid_def)
  next
    case (ToolUseLine v)
    with Cons.prems show ?thesis
      by (intro Cons.IH [of "toks @ [\<lparr> type_tok = T_tool_use, value_tok = v \<rparr>]"])
         (auto simp add: roles_valid_def)
  next
    case (ToolResponseLine v)
    with Cons.prems show ?thesis
      by (intro Cons.IH [of "toks @ [\<lparr> type_tok = T_tool_response, value_tok = v \<rparr>]"])
         (auto simp add: roles_valid_def)
  next
    case PlainLine
    with Cons.prems show ?thesis
      by (intro Cons.IH [of "appendLine toks line"]) (auto intro: roles_valid_appendLine)
  next
    case (InvalidLine lab)
    with Cons.prems show ?thesis by simp
  qed
qed

lemma roles_valid_trimContent: "roles_valid toks \<Longrightarrow> roles_valid (map trimContent toks)"
  by (auto simp add: roles_valid_def trimContent_def)

lemma tokenize_roles_valid: "tokenize transcript = Inr toks \<Longrightarrow> roles_valid toks"
proof -
  assume "tokenize transcript = Inr toks"
  then obtain toks' where t: "tokenizeLines (splitLines transcript) [] = Inr toks'"
    and m: "toks = map trimContent toks'"
    by (auto simp add: tokenize_def split: sum.splits)
  have "roles_valid []" by (simp add: roles_valid_def)
  with t have "roles_valid toks'" by (rule tokenizeLines_roles_valid)
  with m show ?thesis by (simp add: roles_valid_trimContent)
qed

text \<open>
  C6, amended. When some line of the input is offending (it has a colon, and its label is not
  empty, not a tool marker and not exactly a Role label; \<^verbatim>\<open>user123\<close> is such a label),
  \<open>tokenize\<close> fails with "Invalid role: <label>. Valid roles are: ..." naming verbatim the
  label of the first offending line. And whenever \<open>tokenize\<close> succeeds, the value of every
  role token is exactly a Role label.
\<close>

theorem invalid_role_names_first_label:
  "(\<forall>line\<in>set (splitLines transcript). offending line \<longrightarrow>
      (\<exists>first. List.find offending (splitLines transcript) = Some first \<and>
         tokenize transcript =
           Inl (TokenizeError (''Invalid role: '' @ labelOf first @ ''. Valid roles are: '' @ validRolesText)))) \<and>
   (\<forall>toks. tokenize transcript = Inr toks \<longrightarrow>
      (\<forall>t\<in>set toks. type_tok t = T_role \<longrightarrow> value_tok t \<in> set roleLabels))"
proof (intro conjI ballI allI impI)
  fix line
  assume "line \<in> set (splitLines transcript)" and "offending line"
  then have "List.find offending (splitLines transcript) \<noteq> None"
    by (auto simp add: find_None_iff)
  then obtain first where f: "List.find offending (splitLines transcript) = Some first" by auto
  from tokenizeLines_offending [OF f, of "[]"]
  have "tokenize transcript = Inl (TokenizeError (invalidRole (labelOf first)))"
    by (simp add: tokenize_def)
  with f show "\<exists>first. List.find offending (splitLines transcript) = Some first \<and>
         tokenize transcript =
           Inl (TokenizeError (''Invalid role: '' @ labelOf first @ ''. Valid roles are: '' @ validRolesText))"
    by (simp add: invalidRole_def)
next
  fix toks t
  assume "tokenize transcript = Inr toks" "t \<in> set toks" "type_tok t = T_role"
  with tokenize_roles_valid show "value_tok t \<in> set roleLabels"
    by (auto simp add: roles_valid_def)
qed

lemma partialRole_lines:
  "splitLines partialRoleTranscript =
     [''user: Hello'', ''user123: This should not be parsed as a role'', ''assistant: Hi there'']"
  by (simp add: partialRoleTranscript_def newline_def)

lemma toolTranscript_lines:
  \<open>splitLines toolTranscript =
     [''assistant: ok'', ''tool use: search args: {"q":1}'', ''tool response: done'']\<close>
  by (simp add: toolTranscript_def newline_def)

text \<open>C6, amended, at the transcript of the test "should handle partial role matches".\<close>

theorem invalid_role_names_first_label_witness:
  "''user123: This should not be parsed as a role'' \<in> set (splitLines partialRoleTranscript) \<and>
   offending ''user123: This should not be parsed as a role'' \<and>
   tokenize partialRoleTranscript =
     Inl (TokenizeError ''Invalid role: user123. Valid roles are: user, assistant, human agent'') \<and>
   (\<exists>toks. tokenize toolTranscript = Inr toks \<and> \<lparr> type_tok = T_role, value_tok = ''assistant'' \<rparr> \<in> set toks \<and>
      ''assistant'' \<in> set roleLabels)"
proof -
  have off: "offending ''user123: This should not be parsed as a role''"
    by (simp add: offending_def trimStart_def isWhiteSpace_def labelOf_def toolMarkers_def roleLabels_def)
  have noff: "\<not> offending ''user: Hello''"
    by (simp add: offending_def trimStart_def isWhiteSpace_def labelOf_def toolMarkers_def roleLabels_def)
  have lab: "labelOf ''user123: This should not be parsed as a role'' = ''user123''"
    by (simp add: trimStart_def isWhiteSpace_def labelOf_def)
  have mem: "''user123: This should not be parsed as a role'' \<in> set (splitLines partialRoleTranscript)"
    by (simp add: partialRole_lines)
  have tok: \<open>tokenize toolTranscript =
     Inr [\<lparr> type_tok = T_role, value_tok = ''assistant'' \<rparr>, \<lparr> type_tok = T_content, value_tok = ''ok'' \<rparr>,
          \<lparr> type_tok = T_tool_use, value_tok = ''search args: {"q":1}'' \<rparr>,
          \<lparr> type_tok = T_tool_response, value_tok = ''done'' \<rparr>]\<close>
    by (simp add: tokenize_def toolTranscript_lines classify_def labelOf_def afterColon_def
        dropSpace_def trimStart_def trimEnd_def trim_def isWhiteSpace_def roleLabels_def trimContent_def)
  from invalid_role_names_first_label [of partialRoleTranscript] mem off
  obtain first where "List.find offending (splitLines partialRoleTranscript) = Some first"
    and t: "tokenize partialRoleTranscript =
           Inl (TokenizeError (''Invalid role: '' @ labelOf first @ ''. Valid roles are: '' @ validRolesText))"
    by blast
  with off noff have "first = ''user123: This should not be parsed as a role''"
    by (simp add: partialRole_lines)
  with t lab have "tokenize partialRoleTranscript =
     Inl (TokenizeError ''Invalid role: user123. Valid roles are: user, assistant, human agent'')"
    by (simp add: validRolesText_def)
  with mem off tok show ?thesis
    by (simp add: roleLabels_def)
qed

text \<open>
  C6 as stated fails: the text before the first colon of a \<^verbatim>\<open>tool use:\<close> line is not a
  Role label, and the input tokenizes.
\<close>

theorem tool_marker_is_not_a_role_counterexample:
  \<open>''tool use: search args: {"q":1}'' \<in> set (splitLines toolTranscript) \<and>
   labelOf ''tool use: search args: {"q":1}'' = ''tool use'' \<and>
   ''tool use'' \<notin> set roleLabels \<and>
   tokenize toolTranscript =
     Inr [\<lparr> type_tok = T_role, value_tok = ''assistant'' \<rparr>, \<lparr> type_tok = T_content, value_tok = ''ok'' \<rparr>,
          \<lparr> type_tok = T_tool_use, value_tok = ''search args: {"q":1}'' \<rparr>,
          \<lparr> type_tok = T_tool_response, value_tok = ''done'' \<rparr>]\<close>
  by (simp add: tokenize_def toolTranscript_lines classify_def labelOf_def afterColon_def
      dropSpace_def trimStart_def trimEnd_def trim_def isWhiteSpace_def roleLabels_def trimContent_def)

section \<open>Properties of the parser\<close>

lemma splitAtFirst_first:
  assumes "m \<noteq> []" and "\<forall>i<length a. take (length m) (drop i (a @ m @ b)) \<noteq> m"
  shows "splitAtFirst m (a @ m @ b) = (a, b)"
  using assms(2)
proof (induction a)
  case Nil
  from assms(1) obtain c cs where "m @ b = c # cs" by (cases m) auto
  moreover have "take (length m) (m @ b) = m" by simp
  moreover have "drop (length m) (m @ b) = b" by simp
  ultimately show ?case by (metis append_Nil splitAtFirst.simps(2))
next
  case (Cons x a)
  from Cons.prems have "take (length m) (drop 0 ((x # a) @ m @ b)) \<noteq> m" by blast
  then have ne: "take (length m) (x # (a @ m @ b)) \<noteq> m" by simp
  have "\<forall>i<length a. take (length m) (drop i (a @ m @ b)) \<noteq> m"
  proof (intro allI impI)
    fix i assume "i < length a"
    then have "Suc i < length (x # a)" by simp
    with Cons.prems have "take (length m) (drop (Suc i) ((x # a) @ m @ b)) \<noteq> m" by blast
    then show "take (length m) (drop i (a @ m @ b)) \<noteq> m" by simp
  qed
  from Cons.IH [OF this] ne show ?case by simp
qed

lemma firstArgsMarker_split:
  assumes "firstArgsMarker v before after"
  shows "toolArgsText v = after"
proof -
  from assms have v: "v = before @ ''args:'' @ after"
    and first: "\<forall>i<length before. take 5 (drop i v) \<noteq> ''args:''"
    unfolding firstArgsMarker_def by blast+
  have five: "length ''args:'' = 5" by simp
  have "''args:'' \<noteq> []" by simp
  moreover from first have "\<forall>i<length before. take (length ''args:'') (drop i (before @ ''args:'' @ after)) \<noteq> ''args:''"
    unfolding v five .
  ultimately have "splitAtFirst ''args:'' (before @ ''args:'' @ after) = (before, after)"
    by (rule splitAtFirst_first)
  then show ?thesis unfolding toolArgsText_def v by simp
qed

lemma classify_tool_use:
  "trimStart line = ''tool use:'' @ rest \<Longrightarrow> classify line = ToolUseLine (dropSpace rest)"
  by (simp add: classify_def labelOf_def afterColon_def)

lemma classify_ToolUseLine:
  assumes "classify line = ToolUseLine v"
  shows "\<exists>rest. trimStart line = ''tool use:'' @ rest \<and> v = dropSpace rest"
proof -
  let ?t = "trimStart line"
  let ?p = "\<lambda>c. c \<noteq> CHR '':''"
  from assms have colon: "CHR '':'' \<in> set ?t" and lab: "takeWhile ?p ?t = ''tool use''"
    and v: "v = dropSpace (tl (dropWhile ?p ?t))"
    by (auto simp add: classify_def labelOf_def afterColon_def split: if_splits)
  from colon have "dropWhile ?p ?t \<noteq> []" by (simp add: dropWhile_eq_Nil_conv)
  moreover from this have "hd (dropWhile ?p ?t) = CHR '':''"
    using hd_dropWhile [of ?p ?t] by simp
  ultimately have "dropWhile ?p ?t = CHR '':'' # tl (dropWhile ?p ?t)"
    by (metis list.collapse)
  with takeWhile_dropWhile_id [of ?p ?t] lab
  have "?t = ''tool use:'' @ tl (dropWhile ?p ?t)" by (metis append.assoc append_Cons append_Nil)
  with v show ?thesis by blast
qed

lemma toolUseValues_appendLine: "toolUseValues (appendLine toks line) = toolUseValues toks"
proof (cases "toks \<noteq> [] \<and> type_tok (last toks) = T_content")
  case True
  then have "toks = butlast toks @ [last toks]" by simp
  then have "toolUseValues toks = toolUseValues (butlast toks) @ toolUseValues [last toks]"
    unfolding toolUseValues_def by (metis filter_append map_append)
  with True show ?thesis by (simp add: toolUseValues_def appendLine_def)
next
  case False
  then show ?thesis by (auto simp add: appendLine_def)
qed

lemma tokenizeLines_toolUseValues:
  "tokenizeLines lines toks = Inr toks' \<Longrightarrow>
   set (toolUseValues toks') = set (toolUseValues toks) \<union> {v. \<exists>l\<in>set lines. classify l = ToolUseLine v}"
proof (induction lines arbitrary: toks)
  case Nil
  then show ?case by simp
next
  case (Cons line lines)
  show ?case
  proof (cases "classify line")
    case (RoleLine lab rest)
    with Cons.prems Cons.IH [of "toks @ [\<lparr> type_tok = T_role, value_tok = lab \<rparr>, \<lparr> type_tok = T_content, value_tok = rest \<rparr>]"]
    show ?thesis by (auto simp add: toolUseValues_def)
  next
    case (ToolUseLine v)
    with Cons.prems Cons.IH [of "toks @ [\<lparr> type_tok = T_tool_use, value_tok = v \<rparr>]"]
    show ?thesis by (auto simp add: toolUseValues_def)
  next
    case (ToolResponseLine v)
    with Cons.prems Cons.IH [of "toks @ [\<lparr> type_tok = T_tool_response, value_tok = v \<rparr>]"]
    show ?thesis by (auto simp add: toolUseValues_def)
  next
    case PlainLine
    with Cons.prems Cons.IH [of "appendLine toks line"]
    show ?thesis by (auto simp add: toolUseValues_appendLine)
  next
    case (InvalidLine lab)
    with Cons.prems show ?thesis by simp
  qed
qed

lemma toolUseValues_trimContent: "toolUseValues (map trimContent toks) = toolUseValues toks"
  by (induction toks) (auto simp add: toolUseValues_def trimContent_def)

lemma tokenize_toolUseValues:
  assumes "tokenize transcript = Inr toks"
  shows "set (toolUseValues toks) = {v. \<exists>l\<in>set (splitLines transcript). classify l = ToolUseLine v}"
proof -
  from assms obtain toks' where t: "tokenizeLines (splitLines transcript) [] = Inr toks'"
    and m: "toks = map trimContent toks'"
    by (auto simp add: tokenize_def split: sum.splits)
  from tokenizeLines_toolUseValues [OF t] m show ?thesis
    by (simp add: toolUseValues_trimContent) (simp add: toolUseValues_def)
qed

lemma roleOf_labels: "lab \<in> set roleLabels \<Longrightarrow> \<exists>r. roleOf lab = Some r"
  by (auto simp add: roleLabels_def roleOf_def)

lemma buildBlocks_invalid_args:
  assumes "roles_valid toks"
    and "\<exists>v\<in>set (toolUseValues toks). \<not> validJSON (toolArgsText v)"
  shows "buildBlocks validJSON toks blocks current = Inl (ParseError toolArgsError)"
  using assms
proof (induction toks arbitrary: blocks current)
  case Nil
  then show ?case by (simp add: toolUseValues_def)
next
  case (Cons t ts)
  from Cons.prems(1) have valid: "roles_valid ts" by (simp add: roles_valid_def)
  show ?case
  proof (cases "type_tok t")
    case T_role
    with Cons.prems(1) have "value_tok t \<in> set roleLabels" by (simp add: roles_valid_def)
    then obtain r where r: "roleOf (value_tok t) = Some r" using roleOf_labels by blast
    from T_role Cons.prems(2) have "\<exists>v\<in>set (toolUseValues ts). \<not> validJSON (toolArgsText v)"
      by (simp add: toolUseValues_def)
    with T_role r valid show ?thesis by (simp add: Cons.IH)
  next
    case T_content
    with Cons.prems(2) have "\<exists>v\<in>set (toolUseValues ts). \<not> validJSON (toolArgsText v)"
      by (simp add: toolUseValues_def)
    with T_content valid show ?thesis by (simp add: Cons.IH)
  next
    case T_tool_response
    with Cons.prems(2) have "\<exists>v\<in>set (toolUseValues ts). \<not> validJSON (toolArgsText v)"
      by (simp add: toolUseValues_def)
    with T_tool_response valid show ?thesis by (simp add: Cons.IH)
  next
    case T_tool_use
    show ?thesis
    proof (cases "validJSON (toolArgsText (value_tok t))")
      case False
      with T_tool_use show ?thesis by simp
    next
      case True
      with T_tool_use Cons.prems(2) have "\<exists>v\<in>set (toolUseValues ts). \<not> validJSON (toolArgsText v)"
        by (auto simp add: toolUseValues_def)
      with T_tool_use True valid show ?thesis by (simp add: Cons.IH)
    qed
  qed
qed

lemma tokenMarks_append: "tokenMarks (xs @ ys) = tokenMarks xs @ tokenMarks ys"
  by (simp add: tokenMarks_def)

lemma tokenMarks_appendLine: "tokenMarks (appendLine toks line) = tokenMarks toks"
proof (cases "toks \<noteq> [] \<and> type_tok (last toks) = T_content")
  case True
  then have "toks = butlast toks @ [last toks]" by simp
  then have "tokenMarks toks = tokenMarks (butlast toks) @ tokenMarks [last toks]"
    by (metis tokenMarks_append)
  with True show ?thesis
    by (simp add: appendLine_def tokenMarks_append) (simp add: tokenMarks_def)
next
  case False
  then show ?thesis by (auto simp add: appendLine_def)
qed

lemma tokenizeLines_marks:
  "tokenizeLines lines toks = Inr toks' \<Longrightarrow>
   tokenMarks toks' = tokenMarks toks @ concat (map lineMarks lines)"
proof (induction lines arbitrary: toks)
  case Nil
  then show ?case by simp
next
  case (Cons line lines)
  show ?case
  proof (cases "classify line")
    case (RoleLine lab rest)
    with Cons.prems Cons.IH [of "toks @ [\<lparr> type_tok = T_role, value_tok = lab \<rparr>, \<lparr> type_tok = T_content, value_tok = rest \<rparr>]"]
    show ?thesis by (simp add: tokenMarks_append lineMarks_def) (simp add: tokenMarks_def)
  next
    case (ToolUseLine v)
    with Cons.prems Cons.IH [of "toks @ [\<lparr> type_tok = T_tool_use, value_tok = v \<rparr>]"]
    show ?thesis by (simp add: tokenMarks_append lineMarks_def) (simp add: tokenMarks_def)
  next
    case (ToolResponseLine v)
    with Cons.prems Cons.IH [of "toks @ [\<lparr> type_tok = T_tool_response, value_tok = v \<rparr>]"]
    show ?thesis by (simp add: tokenMarks_append lineMarks_def) (simp add: tokenMarks_def)
  next
    case PlainLine
    with Cons.prems Cons.IH [of "appendLine toks line"]
    show ?thesis by (simp add: tokenMarks_appendLine lineMarks_def)
  next
    case (InvalidLine lab)
    with Cons.prems show ?thesis by simp
  qed
qed

lemma tokenMarks_trimContent: "tokenMarks (map trimContent toks) = tokenMarks toks"
  by (induction toks) (auto simp add: tokenMarks_def trimContent_def)

lemma tokenize_marks:
  assumes "tokenize transcript = Inr toks"
  shows "tokenMarks toks = concat (map lineMarks (splitLines transcript))"
proof -
  from assms obtain toks' where t: "tokenizeLines (splitLines transcript) [] = Inr toks'"
    and m: "toks = map trimContent toks'"
    by (auto simp add: tokenize_def split: sum.splits)
  from tokenizeLines_marks [OF t] m show ?thesis
    by (simp add: tokenMarks_trimContent) (simp add: tokenMarks_def)
qed

lemma toolUsages_finalize:
  "map toolUsages (finalize current) = (case current of None \<Rightarrow> [] | Some b \<Rightarrow> [toolUsages b])"
  by (cases current) (simp_all add: finalize_def)

lemma buildBlocks_usages:
  assumes "buildBlocks validJSON toks blocks current = Inr bs"
  shows "map toolUsages bs =
           map toolUsages blocks @
           (case current of
              None \<Rightarrow> []
            | Some b \<Rightarrow>
                [toolUsages b @
                 map (\<lambda>v. \<lparr> ToolUsage.name = toolName v, args = dropSpace (toolArgsText v) \<rparr>)
                   (toolsOf (tokenMarks toks))]) @
           map (map (\<lambda>v. \<lparr> ToolUsage.name = toolName v, args = dropSpace (toolArgsText v) \<rparr>))
             (blocksOf (tokenMarks toks)) \<and>
         (\<forall>v\<in>set (toolUseValues toks). validJSON (toolArgsText v))"
  using assms
proof (induction toks arbitrary: blocks current)
  case Nil
  then show ?case
    by (cases current) (auto simp add: toolUsages_finalize tokenMarks_def toolUseValues_def)
next
  case (Cons t ts)
  have marks: "tokenMarks (t # ts) =
      (case type_tok t of T_role \<Rightarrow> [RoleMark] | T_tool_use \<Rightarrow> [ToolUseMark (value_tok t)] | other \<Rightarrow> []) @
      tokenMarks ts"
    by (simp add: tokenMarks_def)
  show ?case
  proof (cases "type_tok t")
    case T_role
    with Cons.prems obtain r where r: "roleOf (value_tok t) = Some r"
      and rec: "buildBlocks validJSON ts (blocks @ finalize current)
                 (Some \<lparr> MessageBlock.role = r, MessageBlock.content = [], toolUsages = [],
                         toolResponses = [] \<rparr>) = Inr bs"
      by (auto split: option.splits)
    from Cons.IH [OF rec] T_role show ?thesis
      by (cases current) (simp_all add: marks toolUsages_finalize toolUseValues_def)
  next
    case T_content
    with Cons.prems have rec: "buildBlocks validJSON ts blocks
            (map_option (\<lambda>b. b\<lparr> MessageBlock.content := value_tok t \<rparr>) current) = Inr bs"
      by simp
    from Cons.IH [OF rec] T_content show ?thesis
      by (cases current) (simp_all add: marks toolUseValues_def)
  next
    case T_tool_response
    with Cons.prems have rec: "buildBlocks validJSON ts blocks
            (map_option
               (\<lambda>b. b\<lparr> toolResponses := toolResponses b @ [\<lparr> ToolResponse.content = value_tok t \<rparr>] \<rparr>)
               current) = Inr bs"
      by simp
    from Cons.IH [OF rec] T_tool_response show ?thesis
      by (cases current) (simp_all add: marks toolUseValues_def)
  next
    case T_tool_use
    with Cons.prems have ok: "validJSON (toolArgsText (value_tok t))"
      and rec: "buildBlocks validJSON ts blocks
                  (map_option
                     (\<lambda>b. b\<lparr> toolUsages := toolUsages b @
                              [\<lparr> ToolUsage.name = toolName (value_tok t),
                                 args = dropSpace (toolArgsText (value_tok t)) \<rparr>] \<rparr>)
                     current) = Inr bs"
      by (auto split: if_splits)
    from Cons.IH [OF rec] T_tool_use ok show ?thesis
      by (cases current) (simp_all add: marks toolUseValues_def)
  qed
qed

lemma toolsOf_values: "set (toolsOf (tokenMarks toks)) \<subseteq> set (toolUseValues toks)"
proof (induction toks)
  case Nil
  show ?case by (simp add: tokenMarks_def)
next
  case (Cons t ts)
  have marks: "tokenMarks (t # ts) =
      (case type_tok t of T_role \<Rightarrow> [RoleMark] | T_tool_use \<Rightarrow> [ToolUseMark (value_tok t)] | other \<Rightarrow> []) @
      tokenMarks ts"
    by (simp add: tokenMarks_def)
  from Cons show ?case
    by (cases "type_tok t") (auto simp add: marks toolUseValues_def)
qed

lemma blocksOf_values: "vs \<in> set (blocksOf (tokenMarks toks)) \<Longrightarrow> set vs \<subseteq> set (toolUseValues toks)"
proof (induction toks)
  case Nil
  then show ?case by (simp add: tokenMarks_def)
next
  case (Cons t ts)
  have marks: "tokenMarks (t # ts) =
      (case type_tok t of T_role \<Rightarrow> [RoleMark] | T_tool_use \<Rightarrow> [ToolUseMark (value_tok t)] | other \<Rightarrow> []) @
      tokenMarks ts"
    by (simp add: tokenMarks_def)
  from Cons toolsOf_values [of ts] show ?case
    by (cases "type_tok t") (auto simp add: marks toolUseValues_def)
qed

lemma parse_tokenized:
  "tokenize transcript = Inr toks \<Longrightarrow>
   parse validJSON transcript caseName =
     (case buildBlocks validJSON toks [] None of
        Inl e \<Rightarrow> Inl e
      | Inr blocks \<Rightarrow> Inr \<lparr> id_tc = [], TestCase.name = caseName, messageBlocks = blocks \<rparr>)"
  by (simp add: parse_def)

text \<open>
  C7, amended. For a transcript that tokenizes: when the text after the first \<^verbatim>\<open>args:\<close>
  of some \<^verbatim>\<open>tool use:\<close> line is not valid JSON, \<open>parse\<close> fails with the message "Tool args
  must be valid JSON"; and when \<open>parse\<close> succeeds, the message blocks are those of the role
  lines, in order, and the tool usages of each block are, in order, those of the
  \<^verbatim>\<open>tool use:\<close> lines between its role line and the next: the args of each are the original
  string, that is, the text after the first \<^verbatim>\<open>args:\<close> of its line as written, without the
  whitespace character that follows the marker (the end-to-end example of the specification
  and the parser's test store \<^verbatim>\<open>{"q":1}\<close> for \<^verbatim>\<open>args: {"q":1}\<close>), and that text is
  valid JSON; the name is the text before the marker, trimmed.
\<close>

theorem tool_args_must_be_valid_JSON:
  assumes "tokenize transcript = Inr toks"
  shows "(\<forall>line\<in>set (splitLines transcript). \<forall>rest before after.
            trimStart line = ''tool use:'' @ rest \<and>
            firstArgsMarker (dropSpace rest) before after \<and> \<not> validJSON after \<longrightarrow>
            parse validJSON transcript caseName = Inl (ParseError ''Tool args must be valid JSON'')) \<and>
         (\<forall>tc. parse validJSON transcript caseName = Inr tc \<longrightarrow>
            list_all2
              (list_all2
                 (\<lambda>u v. validJSON (toolArgsText v) \<and> args u = dropSpace (toolArgsText v) \<and>
                        ToolUsage.name u = toolName v \<and>
                        (\<forall>before after. firstArgsMarker v before after \<longrightarrow>
                           args u = dropSpace after \<and> ToolUsage.name u = trim before)))
              (map toolUsages (messageBlocks tc)) (toolUsesByBlock transcript))"
proof (intro conjI ballI allI impI)
  fix line rest before after
  assume line: "line \<in> set (splitLines transcript)"
    and h: "trimStart line = ''tool use:'' @ rest \<and>
            firstArgsMarker (dropSpace rest) before after \<and> \<not> validJSON after"
  from h have "classify line = ToolUseLine (dropSpace rest)" by (simp add: classify_tool_use)
  with line have "dropSpace rest \<in> set (toolUseValues toks)"
    unfolding tokenize_toolUseValues [OF assms] by blast
  moreover from h have "\<not> validJSON (toolArgsText (dropSpace rest))"
    using firstArgsMarker_split [of "dropSpace rest" before after] by simp
  ultimately have "\<exists>v\<in>set (toolUseValues toks). \<not> validJSON (toolArgsText v)" by blast
  with tokenize_roles_valid [OF assms]
  have "buildBlocks validJSON toks [] None = Inl (ParseError toolArgsError)"
    by (rule buildBlocks_invalid_args)
  then show "parse validJSON transcript caseName = Inl (ParseError ''Tool args must be valid JSON'')"
    by (simp add: parse_tokenized [OF assms] toolArgsError_def)
next
  fix tc
  assume p: "parse validJSON transcript caseName = Inr tc"
  from p obtain bs where bs: "buildBlocks validJSON toks [] None = Inr bs"
    and tc: "messageBlocks tc = bs"
    by (auto simp add: parse_tokenized [OF assms] split: sum.splits)
  define vss where "vss = toolUsesByBlock transcript"
  define R where "R = (\<lambda>(u :: ToolUsage) v. validJSON (toolArgsText v) \<and> args u = dropSpace (toolArgsText v) \<and>
                        ToolUsage.name u = toolName v \<and>
                        (\<forall>before after. firstArgsMarker v before after \<longrightarrow>
                           args u = dropSpace after \<and> ToolUsage.name u = trim before))"
  from buildBlocks_usages [OF bs]
  have stored: "map toolUsages bs =
      map (map (\<lambda>v. \<lparr> ToolUsage.name = toolName v, args = dropSpace (toolArgsText v) \<rparr>)) vss"
    and valid: "\<forall>v\<in>set (toolUseValues toks). validJSON (toolArgsText v)"
    by (simp_all add: vss_def toolUsesByBlock_def tokenize_marks [OF assms])
  have sub: "set vs \<subseteq> set (toolUseValues toks)" if "vs \<in> set vss" for vs
    using that unfolding vss_def toolUsesByBlock_def tokenize_marks [OF assms, symmetric]
    by (rule blocksOf_values)
  have split: "toolArgsText v = after \<and> toolName v = trim before"
    if "firstArgsMarker v before after" for v before after
  proof -
    from that have v: "v = before @ ''args:'' @ after"
      and first: "\<forall>i<length before. take 5 (drop i v) \<noteq> ''args:''"
      unfolding firstArgsMarker_def by blast+
    have five: "length ''args:'' = 5" by simp
    have "''args:'' \<noteq> []" by simp
    moreover from first have "\<forall>i<length before. take (length ''args:'') (drop i (before @ ''args:'' @ after)) \<noteq> ''args:''"
      unfolding v five .
    ultimately have "splitAtFirst ''args:'' (before @ ''args:'' @ after) = (before, after)"
      by (rule splitAtFirst_first)
    then show ?thesis unfolding toolArgsText_def toolName_def v by simp
  qed
  have one: "R \<lparr> ToolUsage.name = toolName v, args = dropSpace (toolArgsText v) \<rparr> v"
    if "validJSON (toolArgsText v)" for v
    using that split [of v] by (simp add: R_def)
  have each: "list_all2 R (map (\<lambda>v. \<lparr> ToolUsage.name = toolName v, args = dropSpace (toolArgsText v) \<rparr>) vs) vs"
    if "vs \<in> set vss" for vs
  proof -
    from sub [OF that] valid have "\<forall>v\<in>set vs. validJSON (toolArgsText v)" by blast
    with one show ?thesis by (simp add: list_all2_map1 list_all2_same)
  qed
  have "list_all2 (list_all2 R)
      (map (map (\<lambda>v. \<lparr> ToolUsage.name = toolName v, args = dropSpace (toolArgsText v) \<rparr>)) vss) vss"
    using each by (simp add: list_all2_map1 list_all2_same)
  with stored tc show "list_all2
              (list_all2
                 (\<lambda>u v. validJSON (toolArgsText v) \<and> args u = dropSpace (toolArgsText v) \<and>
                        ToolUsage.name u = toolName v \<and>
                        (\<forall>before after. firstArgsMarker v before after \<longrightarrow>
                           args u = dropSpace after \<and> ToolUsage.name u = trim before)))
              (map toolUsages (messageBlocks tc)) (toolUsesByBlock transcript)"
    by (simp add: vss_def R_def)
qed

lemma badArgs_lines:
  "splitLines badArgsTranscript =
     [''assistant: Let me check'', ''tool use: search args: invalid json'', ''tool response: some response'']"
  by (simp add: badArgsTranscript_def newline_def)

lemma badArgs_tokens:
  "tokenize badArgsTranscript =
     Inr [\<lparr> type_tok = T_role, value_tok = ''assistant'' \<rparr>,
          \<lparr> type_tok = T_content, value_tok = ''Let me check'' \<rparr>,
          \<lparr> type_tok = T_tool_use, value_tok = ''search args: invalid json'' \<rparr>,
          \<lparr> type_tok = T_tool_response, value_tok = ''some response'' \<rparr>]"
  by (simp add: badArgs_lines tokenizer_defs)

lemma argsTest_lines:
  \<open>splitLines argsTestTranscript =
     [''assistant: Let me check'', ''tool use: search args: {"query": "test"}'',
      ''tool response: Found results'']\<close>
  by (simp add: argsTestTranscript_def newline_def)

lemma argsTest_tokens:
  \<open>tokenize argsTestTranscript =
     Inr [\<lparr> type_tok = T_role, value_tok = ''assistant'' \<rparr>,
          \<lparr> type_tok = T_content, value_tok = ''Let me check'' \<rparr>,
          \<lparr> type_tok = T_tool_use, value_tok = ''search args: {"query": "test"}'' \<rparr>,
          \<lparr> type_tok = T_tool_response, value_tok = ''Found results'' \<rparr>]\<close>
  by (simp add: argsTest_lines tokenizer_defs)

lemma argsTest_parse:
  \<open>parse knownJSON argsTestTranscript ''test-case'' =
     Inr \<lparr> id_tc = [], TestCase.name = ''test-case'',
           messageBlocks =
             [\<lparr> MessageBlock.role = ASSISTANT, MessageBlock.content = ''Let me check'',
                toolUsages = [\<lparr> ToolUsage.name = ''search'', args = ''{"query": "test"}'' \<rparr>],
                toolResponses = [\<lparr> ToolResponse.content = ''Found results'' \<rparr>] \<rparr>] \<rparr>\<close>
  by (simp add: parse_def argsTest_tokens roleOf_def toolArgsText_def toolName_def
      knownJSON_def finalize_def dropSpace_def trim_def trimStart_def trimEnd_def isWhiteSpace_def)

lemma argsTest_byBlock:
  \<open>toolUsesByBlock argsTestTranscript = [[''search args: {"query": "test"}'']]\<close>
  by (simp add: toolUsesByBlock_def argsTest_lines lineMarks_def classify_def labelOf_def
      afterColon_def dropSpace_def trimStart_def isWhiteSpace_def roleLabels_def)

text \<open>
  C7, amended, at the transcripts of the parser's tests "should throw ParseError for invalid
  tool args format" and "should handle tool usage with args as string": the first fails with
  the message, the second stores the args \<^verbatim>\<open>{"query": "test"}\<close> in its one block, the
  text after the marker without the space that follows it.
\<close>

theorem tool_args_must_be_valid_JSON_witness:
  \<open>(\<exists>toks. tokenize badArgsTranscript = Inr toks) \<and>
   ''tool use: search args: invalid json'' \<in> set (splitLines badArgsTranscript) \<and>
   trimStart ''tool use: search args: invalid json'' = ''tool use:'' @ '' search args: invalid json'' \<and>
   firstArgsMarker (dropSpace '' search args: invalid json'') ''search '' '' invalid json'' \<and>
   \<not> knownJSON '' invalid json'' \<and>
   parse knownJSON badArgsTranscript ''test-case'' = Inl (ParseError ''Tool args must be valid JSON'') \<and>
   (\<exists>toks. tokenize argsTestTranscript = Inr toks) \<and>
   toolUsesByBlock argsTestTranscript = [[''search args: {"query": "test"}'']] \<and>
   firstArgsMarker ''search args: {"query": "test"}'' ''search '' '' {"query": "test"}'' \<and>
   (\<exists>tc. parse knownJSON argsTestTranscript ''test-case'' = Inr tc \<and>
      map toolUsages (messageBlocks tc) =
        [[\<lparr> ToolUsage.name = ''search'', args = ''{"query": "test"}'' \<rparr>]] \<and>
      list_all2 (list_all2 (\<lambda>u v. knownJSON (toolArgsText v) \<and> args u = dropSpace (toolArgsText v)))
        (map toolUsages (messageBlocks tc)) (toolUsesByBlock argsTestTranscript))\<close>
proof -
  have 1: "''tool use: search args: invalid json'' \<in> set (splitLines badArgsTranscript)"
    by (simp add: badArgs_lines)
  have 2: "trimStart ''tool use: search args: invalid json'' = ''tool use:'' @ '' search args: invalid json''"
    by (simp add: trimStart_def isWhiteSpace_def)
  have 3: "firstArgsMarker (dropSpace '' search args: invalid json'') ''search '' '' invalid json''"
    by (simp add: firstArgsMarker_def dropSpace_def isWhiteSpace_def eval_nat_numeral All_less_Suc)
  have 4: "\<not> knownJSON '' invalid json''"
    by (simp add: knownJSON_def trim_def trimStart_def trimEnd_def isWhiteSpace_def)
  from tool_args_must_be_valid_JSON [OF badArgs_tokens, of knownJSON "''test-case''"] 1 2 3 4
  have 5: "parse knownJSON badArgsTranscript ''test-case'' = Inl (ParseError ''Tool args must be valid JSON'')"
    by blast
  have 6: \<open>firstArgsMarker ''search args: {"query": "test"}'' ''search '' '' {"query": "test"}''\<close>
    by (simp add: firstArgsMarker_def eval_nat_numeral All_less_Suc)
  from tool_args_must_be_valid_JSON [OF argsTest_tokens, of knownJSON "''test-case''"] argsTest_parse
  have \<open>list_all2 (list_all2 (\<lambda>u v. knownJSON (toolArgsText v) \<and> args u = dropSpace (toolArgsText v) \<and>
                        ToolUsage.name u = toolName v \<and>
                        (\<forall>before after. firstArgsMarker v before after \<longrightarrow>
                           args u = dropSpace after \<and> ToolUsage.name u = trim before)))
        [[\<lparr> ToolUsage.name = ''search'', args = ''{"query": "test"}'' \<rparr>]]
        (toolUsesByBlock argsTestTranscript)\<close>
    by simp
  then have 7: \<open>list_all2 (list_all2 (\<lambda>u v. knownJSON (toolArgsText v) \<and> args u = dropSpace (toolArgsText v)))
        [[\<lparr> ToolUsage.name = ''search'', args = ''{"query": "test"}'' \<rparr>]]
        (toolUsesByBlock argsTestTranscript)\<close>
    by (rule list_all2_mono) (erule list_all2_mono, simp)
  from 1 2 3 4 5 6 7 show ?thesis
    by (simp add: badArgs_tokens argsTest_tokens argsTest_parse argsTest_byBlock)
qed

text \<open>
  C7 as stated fails. By sections 4.2 and 7 the parser calls the tokenizer first, and a
  \<open>TokenizeError\<close> surfaces as a \<open>ParseError\<close> with the same message; the parser's test
  "should throw ParseError for invalid role" expects a \<open>ParseError\<close> for an invalid role. In
  this transcript an invalid role stands on the first line, before the \<^verbatim>\<open>tool use:\<close>
  line whose args are not valid JSON, so that it is met first in any reading from the top:
  \<open>parse\<close> fails with the message of the invalid role.
\<close>

theorem invalid_role_hides_tool_args_counterexample:
  "''tool use: search args: invalid json'' \<in> set (splitLines strangerTranscript) \<and>
   trimStart ''tool use: search args: invalid json'' = ''tool use:'' @ '' search args: invalid json'' \<and>
   firstArgsMarker (dropSpace '' search args: invalid json'') ''search '' '' invalid json'' \<and>
   \<not> knownJSON '' invalid json'' \<and>
   parse knownJSON strangerTranscript ''test-case'' =
     Inl (ParseError ''Invalid role: nobody. Valid roles are: user, assistant, human agent'') \<and>
   parse knownJSON strangerTranscript ''test-case'' \<noteq> Inl (ParseError ''Tool args must be valid JSON'')"
proof -
  have lines: "splitLines strangerTranscript = [''nobody: hi'', ''tool use: search args: invalid json'']"
    by (simp add: strangerTranscript_def newline_def)
  have 3: "firstArgsMarker (dropSpace '' search args: invalid json'') ''search '' '' invalid json''"
    by (simp add: firstArgsMarker_def dropSpace_def isWhiteSpace_def eval_nat_numeral All_less_Suc)
  have 4: "\<not> knownJSON '' invalid json''"
    by (simp add: knownJSON_def trim_def trimStart_def trimEnd_def isWhiteSpace_def)
  have 5: "parse knownJSON strangerTranscript ''test-case'' =
     Inl (ParseError ''Invalid role: nobody. Valid roles are: user, assistant, human agent'')"
    by (simp add: parse_def lines tokenizer_defs)
  from 3 4 5 show ?thesis
    by (simp add: lines trimStart_def isWhiteSpace_def)
qed

section \<open>Properties of the loader\<close>

lemma loadFiles_stop:
  "\<exists>r. loadFiles validJSON fs dir True files acc = Inr r \<and>
     testCases r = testCases acc @ parsedOf (takeWhile parsed (map (loadFile validJSON fs dir) files)) \<and>
     errors r = errors acc @ failedOf (take 1 (dropWhile parsed (map (loadFile validJSON fs dir) files)))"
proof (induction files arbitrary: acc)
  case Nil
  show ?case by (simp add: parsedOf_def failedOf_def)
next
  case (Cons f files)
  show ?case
  proof (cases "loadFile validJSON fs dir f")
    case (Inl err)
    then show ?thesis by (simp add: parsedOf_def failedOf_def parsed_def)
  next
    case (Inr tc)
    with Cons.IH [of "acc\<lparr> testCases := testCases acc @ [tc] \<rparr>"] show ?thesis
      by (simp add: parsedOf_def failedOf_def parsed_def)
  qed
qed

lemma loadFiles_continue:
  "\<exists>r. loadFiles validJSON fs dir False files acc = Inr r \<and>
     testCases r = testCases acc @ parsedOf (map (loadFile validJSON fs dir) files) \<and>
     errors r = errors acc @ failedOf (map (loadFile validJSON fs dir) files)"
proof (induction files arbitrary: acc)
  case Nil
  show ?case by (simp add: parsedOf_def failedOf_def)
next
  case (Cons f files)
  show ?case
  proof (cases "loadFile validJSON fs dir f")
    case (Inl err)
    with Cons.IH [of "acc\<lparr> errors := errors acc @ [err] \<rparr>"] show ?thesis
      by (simp add: parsedOf_def failedOf_def)
  next
    case (Inr tc)
    with Cons.IH [of "acc\<lparr> testCases := testCases acc @ [tc] \<rparr>"] show ?thesis
      by (simp add: parsedOf_def failedOf_def)
  qed
qed

lemma failedOf_first:
  "length (failedOf (take 1 (dropWhile parsed outcomes))) = (if \<forall>x\<in>set outcomes. parsed x then 0 else 1)"
proof (induction outcomes)
  case Nil
  show ?case by (simp add: failedOf_def)
next
  case (Cons x xs)
  then show ?case by (cases x) (auto simp add: failedOf_def parsed_def)
qed

text \<open>
  C8. \<open>loadFromDirectory\<close> returns a result and throws nothing, whatever the directory, the
  files and \<^verbatim>\<open>stopOnError\<close> are. For a directory that cannot be read the result has no
  test case and one error entry, for the directory path. Otherwise, over the outcomes of the
  accepted files in enumeration order: with \<^verbatim>\<open>stopOnError = true\<close> the test cases are
  those of the files before the first failing file and the errors are the entry of that file,
  exactly one entry when a file fails (and none when none does); with
  \<^verbatim>\<open>stopOnError = false\<close> the test cases are those of every file that parsed and the
  errors one entry per failing file, in order.
\<close>

theorem loadFromDirectory_results:
  "(\<exists>r. loadFromDirectory accepted validJSON fs dir stop = Inr r) \<and>
   (\<forall>e. readdir fs dir = Inl e \<longrightarrow>
      loadFromDirectory accepted validJSON fs dir stop =
        Inr \<lparr> testCases = [], errors = [\<lparr> filePath = dir, message = errorMessage e \<rparr>] \<rparr>) \<and>
   (\<forall>files. readdir fs dir = Inr files \<longrightarrow>
      (let outcomes = map (loadFile validJSON fs dir) (filter accepted files)
       in (\<exists>r. loadFromDirectory accepted validJSON fs dir True = Inr r \<and>
               testCases r = parsedOf (takeWhile parsed outcomes) \<and>
               errors r = failedOf (take 1 (dropWhile parsed outcomes)) \<and>
               ((\<exists>x\<in>set outcomes. \<not> parsed x) \<longrightarrow> length (errors r) = 1) \<and>
               ((\<forall>x\<in>set outcomes. parsed x) \<longrightarrow> errors r = [])) \<and>
          (\<exists>r. loadFromDirectory accepted validJSON fs dir False = Inr r \<and>
               testCases r = parsedOf outcomes \<and>
               errors r = failedOf outcomes \<and>
               length (errors r) = length (filter (\<lambda>x. \<not> parsed x) outcomes))))"
proof (intro conjI allI impI)
  show "\<exists>r. loadFromDirectory accepted validJSON fs dir stop = Inr r"
  proof (cases "readdir fs dir")
    case (Inl e)
    then show ?thesis by (simp add: loadFromDirectory_def)
  next
    case (Inr files)
    then show ?thesis
      using loadFiles_stop [of validJSON fs dir "filter accepted files" "\<lparr> testCases = [], errors = [] \<rparr>"]
        loadFiles_continue [of validJSON fs dir "filter accepted files" "\<lparr> testCases = [], errors = [] \<rparr>"]
      by (cases stop) (auto simp add: loadFromDirectory_def)
  qed
next
  fix e assume "readdir fs dir = Inl e"
  then show "loadFromDirectory accepted validJSON fs dir stop =
        Inr \<lparr> testCases = [], errors = [\<lparr> filePath = dir, message = errorMessage e \<rparr>] \<rparr>"
    by (simp add: loadFromDirectory_def)
next
  fix files assume r: "readdir fs dir = Inr files"
  define outs where "outs = map (loadFile validJSON fs dir) (filter accepted files)"
  have t: "loadFromDirectory accepted validJSON fs dir b =
           loadFiles validJSON fs dir b (filter accepted files) \<lparr> testCases = [], errors = [] \<rparr>" for b
    using r by (simp add: loadFromDirectory_def)
  from loadFiles_stop [of validJSON fs dir "filter accepted files" "\<lparr> testCases = [], errors = [] \<rparr>"]
  obtain rT where rT: "loadFromDirectory accepted validJSON fs dir True = Inr rT"
    and tT: "testCases rT = parsedOf (takeWhile parsed outs)"
    and eT: "errors rT = failedOf (take 1 (dropWhile parsed outs))"
    unfolding t outs_def by auto
  from eT failedOf_first [of outs]
  have one: "(\<exists>x\<in>set outs. \<not> parsed x) \<longrightarrow> length (errors rT) = 1"
    and none: "(\<forall>x\<in>set outs. parsed x) \<longrightarrow> errors rT = []"
    by auto
  from loadFiles_continue [of validJSON fs dir "filter accepted files" "\<lparr> testCases = [], errors = [] \<rparr>"]
  obtain rF where rF: "loadFromDirectory accepted validJSON fs dir False = Inr rF"
    and tF: "testCases rF = parsedOf outs"
    and eF: "errors rF = failedOf outs"
    unfolding t outs_def by auto
  have "length (failedOf xs) = length (filter (\<lambda>x. \<not> parsed x) xs)" for xs :: "(LoadError + TestCase) list"
    by (induction xs) (auto simp add: failedOf_def parsed_def split: sum.splits)
  with eF have lF: "length (errors rF) = length (filter (\<lambda>x. \<not> parsed x) outs)" by simp
  from rT tT eT one none rF tF eF lF
  show "let outcomes = map (loadFile validJSON fs dir) (filter accepted files)
       in (\<exists>r. loadFromDirectory accepted validJSON fs dir True = Inr r \<and>
               testCases r = parsedOf (takeWhile parsed outcomes) \<and>
               errors r = failedOf (take 1 (dropWhile parsed outcomes)) \<and>
               ((\<exists>x\<in>set outcomes. \<not> parsed x) \<longrightarrow> length (errors r) = 1) \<and>
               ((\<forall>x\<in>set outcomes. parsed x) \<longrightarrow> errors r = [])) \<and>
          (\<exists>r. loadFromDirectory accepted validJSON fs dir False = Inr r \<and>
               testCases r = parsedOf outcomes \<and>
               errors r = failedOf outcomes \<and>
               length (errors r) = length (filter (\<lambda>x. \<not> parsed x) outcomes))"
    unfolding Let_def outs_def [symmetric] by blast
qed

lemma parse_hello:
  "parse validJSON helloTranscript n =
     Inr \<lparr> id_tc = [], TestCase.name = n,
           messageBlocks = [block USER ''Hello'', block ASSISTANT ''Hi there''] \<rparr>"
  by (simp add: parse_def helloTranscript_def fineTranscript_def newline_def tokenizer_defs
      roleOf_def finalize_def block_def)

lemma parse_fine:
  "parse validJSON fineTranscript n =
     Inr \<lparr> id_tc = [], TestCase.name = n,
           messageBlocks = [block USER ''How are you?'', block ASSISTANT ''Fine''] \<rparr>"
  by (simp add: parse_def helloTranscript_def fineTranscript_def newline_def tokenizer_defs
      roleOf_def finalize_def block_def)

lemma parse_invalid:
  "parse validJSON ''invalid: content'' n =
     Inl (ParseError ''Invalid role: invalid. Valid roles are: user, assistant, human agent'')"
  by (simp add: parse_def tokenizer_defs)

lemma mixed_files:
  "filter txtFile [''a_valid1.txt'', ''b_invalid.txt'', ''c_valid2.txt'', ''notes.md''] =
     [''a_valid1.txt'', ''b_invalid.txt'', ''c_valid2.txt'']"
  by (simp add: txtFile_def)

lemma mixed_loadFile:
  "loadFile knownJSON mixedDirectory ''tmp'' ''a_valid1.txt'' = Inr (helloCase ''a_valid1'')"
  "loadFile knownJSON mixedDirectory ''tmp'' ''b_invalid.txt'' = Inl invalidContent"
  "loadFile knownJSON mixedDirectory ''tmp'' ''c_valid2.txt'' = Inr (fineCase ''c_valid2'')"
  by (simp_all add: loadFile_def mixedDirectory_def joinPath_def baseName_def
      parse_hello parse_fine parse_invalid helloCase_def fineCase_def invalidContent_def)

lemma valid_files: "filter txtFile [''test1.txt'', ''test2.txt''] = [''test1.txt'', ''test2.txt'']"
  by (simp add: txtFile_def)

lemma valid_loadFile:
  "loadFile knownJSON validDirectory ''tmp'' ''test1.txt'' = Inr (helloCase ''test1'')"
  "loadFile knownJSON validDirectory ''tmp'' ''test2.txt'' = Inr (fineCase ''test2'')"
  by (simp_all add: loadFile_def validDirectory_def joinPath_def baseName_def
      parse_hello parse_fine helloCase_def fineCase_def)

text \<open>
  C8 at the directory of the loader's test "should handle errors according to stopOnError
  parameter", where the second of three files fails; at the directory of the test "should load
  and parse test cases from a directory", where no file fails; and at a directory that does not
  exist.
\<close>

theorem loadFromDirectory_results_witness:
  "readdir mixedDirectory ''tmp'' = Inr [''a_valid1.txt'', ''b_invalid.txt'', ''c_valid2.txt'', ''notes.md''] \<and>
   loadFromDirectory txtFile knownJSON mixedDirectory ''tmp'' True =
     Inr \<lparr> testCases = [helloCase ''a_valid1''], errors = [invalidContent] \<rparr> \<and>
   loadFromDirectory txtFile knownJSON mixedDirectory ''tmp'' False =
     Inr \<lparr> testCases = [helloCase ''a_valid1'', fineCase ''c_valid2''], errors = [invalidContent] \<rparr> \<and>
   readdir validDirectory ''tmp'' = Inr [''test1.txt'', ''test2.txt''] \<and>
   loadFromDirectory txtFile knownJSON validDirectory ''tmp'' True =
     Inr \<lparr> testCases = [helloCase ''test1'', fineCase ''test2''], errors = [] \<rparr> \<and>
   readdir mixedDirectory ''missing'' = Inl noEntry \<and>
   loadFromDirectory txtFile knownJSON mixedDirectory ''missing'' True =
     Inr \<lparr> testCases = [], errors = [\<lparr> filePath = ''missing'', message = ''ENOENT: no such file or directory'' \<rparr>] \<rparr>"
proof -
  have r: "readdir mixedDirectory ''tmp'' = Inr [''a_valid1.txt'', ''b_invalid.txt'', ''c_valid2.txt'', ''notes.md'']"
    by (simp add: mixedDirectory_def)
  have v: "readdir validDirectory ''tmp'' = Inr [''test1.txt'', ''test2.txt'']"
    by (simp add: validDirectory_def)
  have m: "readdir mixedDirectory ''missing'' = Inl noEntry"
    by (simp add: mixedDirectory_def)
  note found = loadFromDirectory_results [of txtFile knownJSON mixedDirectory "''tmp''" True,
      THEN conjunct2, THEN conjunct2, rule_format, OF r, unfolded mixed_files Let_def]
  note valid = loadFromDirectory_results [of txtFile knownJSON validDirectory "''tmp''" True,
      THEN conjunct2, THEN conjunct2, rule_format, OF v, unfolded valid_files Let_def]
  note missing = loadFromDirectory_results [of txtFile knownJSON mixedDirectory "''missing''" True,
      THEN conjunct2, THEN conjunct1, rule_format, OF m]
  from found obtain rT rF where
    "loadFromDirectory txtFile knownJSON mixedDirectory ''tmp'' True = Inr rT"
    "testCases rT = [helloCase ''a_valid1'']" "errors rT = [invalidContent]"
    "loadFromDirectory txtFile knownJSON mixedDirectory ''tmp'' False = Inr rF"
    "testCases rF = [helloCase ''a_valid1'', fineCase ''c_valid2'']" "errors rF = [invalidContent]"
    by (auto simp add: mixed_loadFile parsedOf_def failedOf_def parsed_def)
  moreover from valid obtain rV where
    "loadFromDirectory txtFile knownJSON validDirectory ''tmp'' True = Inr rV"
    "testCases rV = [helloCase ''test1'', fineCase ''test2'']" "errors rV = []"
    by (auto simp add: valid_loadFile parsedOf_def failedOf_def parsed_def)
  ultimately show ?thesis
    using missing r v m by (simp add: noEntry_def)
qed

end
